theory Spec2Isabelle
  imports Complex_Main
begin

section \<open>Values, errors and the helpers of utils.js\<close>

text \<open>
  The referee reads two text files, validates the submitted schedule against the
  dataset, simulates the traffic second by second and aggregates the result.
  The repository holds two implementations of the same program. They differ in how
  a street's waiting queue is kept: \<^verbatim>\<open>src/index.js\<close> keeps an array of car
  indexes per street and removes the head on a crossing (below: the definitions with
  suffix A), \<^verbatim>\<open>src/unnamed/part_001\<close> keeps two counters per street and a
  ticket per car (suffix Q).

  Numbers. Every number of the program is modelled as an \<open>int\<close>: the model covers the
  runs in which all numeric tokens read as integers, and its sums and differences are
  exact, as those of the source are as long as the numbers stay within \<open>2^53\<close>. The
  reading of a token by the unary plus of JavaScript is the parameter \<open>num\<close> of the
  parsers (\<open>None\<close> stands for NaN), so every theorem holds for whatever that reading
  is. Where the source lets a NaN or an undefined value of the trusted dataset file
  flow on, the model stops with \<open>MalformedDataset\<close>.

  Objects. An object used as a dictionary is a map that holds the properties the
  program has written. A lookup in the source also finds the properties every object
  inherits (\<open>inheritedNames\<close>): each lookup by a name that comes from a file is
  modelled with them. Writing the property \<^verbatim>\<open>__proto__\<close> would replace the prototype
  of the object; the only place where the source could do so is a dataset street of
  that name, and there the model stops with \<open>MalformedDataset\<close>.
\<close>

datatype error =
    TruncatedSubmission int
  | MalformedCount int
  | DuplicateIntersectionSchedule string
  | StreetIntersectionMismatch string string
  | MalformedGreenDuration string
  | GreenDurationOutOfRange string
  | TypeError
  | MalformedDataset

datatype jsValue = Str string | Num "int option"

datatype jsNumber = Finite rat | NotANumber | PlusInfinity | MinusInfinity

type_synonym reader = "string \<Rightarrow> int option"

fun splitOn :: "char \<Rightarrow> string \<Rightarrow> string list" where
  "splitOn c [] = [[]]"
| "splitOn c (x # xs) =
     (if x = c then [] # splitOn c xs
      else (case splitOn c xs of [] \<Rightarrow> [[x]] | w # ws \<Rightarrow> (x # w) # ws))"

text \<open>\<^verbatim>\<open>parseLine\<close> of utils.js: split at single blanks, read the tokens at the given
  positions as numbers.\<close>

definition parseLine :: "reader \<Rightarrow> string \<Rightarrow> nat list \<Rightarrow> jsValue list" where
  "parseLine num rawLine stringToNumberArrayIndexes =
     (let parsedLine = splitOn CHR '' '' rawLine
      in if stringToNumberArrayIndexes \<noteq> []
         then map (\<lambda>(i, v). if i \<in> set stringToNumberArrayIndexes then Num (num v) else Str v)
                (enumerate 0 parsedLine)
         else map Str parsedLine)"

text \<open>Reading an array of lines at an index: outside the array the source gets
  \<^verbatim>\<open>undefined\<close>.\<close>

definition lineAt :: "string list \<Rightarrow> int \<Rightarrow> string option" where
  "lineAt lines k = (if 0 \<le> k \<and> k < int (length lines) then Some (lines ! nat k) else None)"

text \<open>A parsed element used as a property name; an absent element is
  \<^verbatim>\<open>undefined\<close>, whose property name is the text "undefined".\<close>

definition nameAt :: "jsValue list \<Rightarrow> nat \<Rightarrow> string" where
  "nameAt vs i =
     (if i < length vs then (case vs ! i of Str s \<Rightarrow> s | Num n \<Rightarrow> ''undefined'')
      else ''undefined'')"

text \<open>A parsed element used as a number; absent, it is \<^verbatim>\<open>undefined\<close>, which
  \<^verbatim>\<open>isNaN\<close> takes for NaN.\<close>

definition numberAt :: "jsValue list \<Rightarrow> nat \<Rightarrow> int option" where
  "numberAt vs i =
     (if i < length vs then (case vs ! i of Num n \<Rightarrow> n | Str s \<Rightarrow> None) else None)"

definition integerAt :: "jsValue list \<Rightarrow> nat \<Rightarrow> error + int" where
  "integerAt vs i = (case numberAt vs i of None \<Rightarrow> Inl MalformedDataset | Some n \<Rightarrow> Inr n)"

definition nthName :: "string list \<Rightarrow> nat \<Rightarrow> string" where
  "nthName names i = (if i < length names then names ! i else ''undefined'')"

text \<open>The remainder operator on integers: NaN for a zero divisor, the sign of the
  dividend otherwise.\<close>

definition jsRemainder :: "int \<Rightarrow> int \<Rightarrow> int option" where
  "jsRemainder a b = (if b = 0 then None else Some (sgn a * (\<bar>a\<bar> mod \<bar>b\<bar>)))"

definition jsDivide :: "int \<Rightarrow> int \<Rightarrow> jsNumber" where
  "jsDivide a b =
     (if b \<noteq> 0 then Finite (of_int a / of_int b)
      else if a = 0 then NotANumber
      else if 0 < a then PlusInfinity else MinusInfinity)"

text \<open>The decimal text of an integer: the property name under which a number is
  looked up in an object.\<close>

fun natKey :: "nat \<Rightarrow> string" where
  "natKey n = (if n < 10 then [''0123456789'' ! n]
               else natKey (n div 10) @ [''0123456789'' ! (n mod 10)])"

declare natKey.simps [simp del]

definition numberKey :: "int \<Rightarrow> string" where
  "numberKey n = (if n < 0 then CHR ''-'' # natKey (nat (- n)) else natKey (nat n))"

text \<open>A \<^verbatim>\<open>for\<close> loop whose body may throw.\<close>

fun forEach :: "('a \<Rightarrow> 's \<Rightarrow> error + 's) \<Rightarrow> 'a list \<Rightarrow> 's \<Rightarrow> error + 's" where
  "forEach body [] s = Inr s"
| "forEach body (x # xs) s =
     (case body x s of Inl e \<Rightarrow> Inl e | Inr s' \<Rightarrow> forEach body xs s')"

text \<open>The names every JavaScript object inherits from \<^verbatim>\<open>Object.prototype\<close>. A lookup of
  such a name in an object that does not hold it itself finds a function (the
  prototype itself under \<^verbatim>\<open>__proto__\<close>): a value that counts as true, has none of the
  properties the program reads, and cannot be taken apart as an array.\<close>

definition inheritedNames :: "string list" where
  "inheritedNames =
     [''constructor'', ''__defineGetter__'', ''__defineSetter__'', ''hasOwnProperty'',
      ''__lookupGetter__'', ''__lookupSetter__'', ''isPrototypeOf'', ''propertyIsEnumerable'',
      ''toString'', ''valueOf'', ''__proto__'', ''toLocaleString'']"

definition inheritedName :: "string \<Rightarrow> bool" where
  "inheritedName name = (name \<in> set inheritedNames)"

text \<open>Reading a property of a street the dataset does not hold. Under a plain name the
  street is \<^verbatim>\<open>undefined\<close> and the source throws. Under an inherited name the source finds
  a function, reads \<^verbatim>\<open>undefined\<close> from it and goes on with that value: the model
  stops.\<close>

definition absent :: "string \<Rightarrow> error" where
  "absent name = (if inheritedName name then MalformedDataset else TypeError)"

section \<open>The data model\<close>

record simulation =
  simulationDuration :: int
  numIntersections :: int
  numStreets :: int
  numCars :: int
  bonusPoint :: int

record street =
  start :: int
  end' :: int
  duration :: int

record greenWindow =
  gte :: int
  lte :: int

text \<open>part_001: a street carries its counters and, once scheduled, its window and the
  cycle length of its intersection.\<close>

record streetQ = street +
  lastQueuingNumber :: int
  nextQueuingNumber :: int
  schedule :: "greenWindow option"
  scheduledTimeWindow :: "int option"

text \<open>index.js: a street carries the array of waiting car indexes.\<close>

record streetA = street +
  carIdQueue :: "nat list"

record car =
  carNumStreets :: int
  streetNames :: "string list"
  currentStreetIdx :: nat
  remainingTimeOnStreet :: int
  arrived :: bool
  score :: int
  commuteTime :: int

record carQ = car +
  currentStreetName :: string
  queuingNumber :: int

record ('s, 'c) dataset =
  simulation :: simulation
  streets :: "string \<rightharpoonup> 's"
  cars :: "'c list"

record averageIntersectionSchedules =
  greenCycles :: jsNumber
  totalCycles :: jsNumber

text \<open>index.js: the object kept per scheduled intersection holds the windows under the
  street names and the cycle length under the name \<^verbatim>\<open>scheduledTimeWindow\<close>.\<close>

datatype scheduleProperty = Window int int | CycleLength int

type_synonym intersectionSchedules = "string \<rightharpoonup> (string \<rightharpoonup> scheduleProperty)"

section \<open>Reading the dataset\<close>

definition textOf :: "jsValue \<Rightarrow> string" where
  "textOf v = (case v of Str s \<Rightarrow> s | Num n \<Rightarrow> ''undefined'')"

definition readSimulation :: "reader \<Rightarrow> string list \<Rightarrow> error + simulation" where
  "readSimulation num allLines =
     (case allLines of
        [] \<Rightarrow> Inl TypeError
      | l # rest \<Rightarrow>
          (let vs = parseLine num l [0, 1, 2, 3, 4]
           in case integerAt vs 0 of Inl e \<Rightarrow> Inl e | Inr d \<Rightarrow>
              (case integerAt vs 1 of Inl e \<Rightarrow> Inl e | Inr i \<Rightarrow>
              (case integerAt vs 2 of Inl e \<Rightarrow> Inl e | Inr s \<Rightarrow>
              (case integerAt vs 3 of Inl e \<Rightarrow> Inl e | Inr c \<Rightarrow>
              (case integerAt vs 4 of Inl e \<Rightarrow> Inl e | Inr f \<Rightarrow>
                 Inr \<lparr>simulationDuration = d, numIntersections = i, numStreets = s,
                      numCars = c, bonusPoint = f\<rparr>))))))"

definition readStreet :: "reader \<Rightarrow> string list \<Rightarrow> int \<Rightarrow> error + (string \<times> street)" where
  "readStreet num lines i =
     (case lineAt lines i of
        None \<Rightarrow> Inl TypeError
      | Some l \<Rightarrow>
          (let vs = parseLine num l [0, 1, 3]
           in case integerAt vs 0 of Inl e \<Rightarrow> Inl e | Inr s \<Rightarrow>
              (case integerAt vs 1 of Inl e \<Rightarrow> Inl e | Inr e \<Rightarrow>
              (case integerAt vs 3 of Inl e \<Rightarrow> Inl e | Inr d \<Rightarrow>
                 Inr (nameAt vs 2, \<lparr>start = s, end' = e, duration = d\<rparr>)))))"

definition readRoute :: "reader \<Rightarrow> string list \<Rightarrow> int \<Rightarrow> error + (int \<times> string list)" where
  "readRoute num lines i =
     (case lineAt lines i of
        None \<Rightarrow> Inl TypeError
      | Some l \<Rightarrow>
          (let vs = parseLine num l [0]
           in case integerAt vs 0 of Inl e \<Rightarrow> Inl e
              | Inr n \<Rightarrow> Inr (n, map textOf (tl vs))))"

definition streetIndexes :: "simulation \<Rightarrow> int list" where
  "streetIndexes sim = map int [0..<nat (numStreets sim)]"

definition carIndexes :: "simulation \<Rightarrow> int list" where
  "carIndexes sim = map (\<lambda>k. numStreets sim + int k) [0..<nat (numCars sim)]"

subsection \<open>part_001\<close>

definition addStreetQ ::
  "reader \<Rightarrow> string list \<Rightarrow> int \<Rightarrow> (string \<rightharpoonup> streetQ) \<Rightarrow> error + (string \<rightharpoonup> streetQ)" where
  "addStreetQ num lines i sts =
     (case readStreet num lines i of
        Inl e \<Rightarrow> Inl e
      | Inr (streetName, s) \<Rightarrow>
          if streetName = ''__proto__'' then Inl MalformedDataset
          else Inr (sts(streetName \<mapsto>
                      \<lparr>start = start s, end' = end' s, duration = duration s,
                       lastQueuingNumber = - 1, nextQueuingNumber = 0,
                       schedule = None, scheduledTimeWindow = None\<rparr>)))"

definition addCarQ ::
  "reader \<Rightarrow> string list \<Rightarrow> int \<Rightarrow> (string \<rightharpoonup> streetQ) \<times> carQ list
     \<Rightarrow> error + (string \<rightharpoonup> streetQ) \<times> carQ list" where
  "addCarQ num lines i = (\<lambda>(sts, cs).
     (case readRoute num lines i of
        Inl e \<Rightarrow> Inl e
      | Inr (n, names) \<Rightarrow>
          (case sts (nthName names 0) of
             None \<Rightarrow> Inl (absent (nthName names 0))
           | Some s \<Rightarrow>
               Inr (sts(nthName names 0 \<mapsto> s\<lparr>nextQueuingNumber := nextQueuingNumber s + 1\<rparr>),
                    cs @ [\<lparr>carNumStreets = n, streetNames = names, currentStreetIdx = 0,
                           remainingTimeOnStreet = 0, arrived = False, score = 0,
                           commuteTime = 0, currentStreetName = nthName names 0,
                           queuingNumber = nextQueuingNumber s\<rparr>]))))"

definition parseInputDataSetQ :: "reader \<Rightarrow> string list \<Rightarrow> error + (streetQ, carQ) dataset" where
  "parseInputDataSetQ num allLines =
     (case readSimulation num allLines of
        Inl e \<Rightarrow> Inl e
      | Inr sim \<Rightarrow>
          (case forEach (addStreetQ num (tl allLines)) (streetIndexes sim) Map.empty of
             Inl e \<Rightarrow> Inl e
           | Inr sts \<Rightarrow>
               (case forEach (addCarQ num (tl allLines)) (carIndexes sim) (sts, []) of
                  Inl e \<Rightarrow> Inl e
                | Inr (sts', cs) \<Rightarrow> Inr \<lparr>simulation = sim, streets = sts', cars = cs\<rparr>)))"

subsection \<open>index.js\<close>

definition addStreetA ::
  "reader \<Rightarrow> string list \<Rightarrow> int \<Rightarrow> (string \<rightharpoonup> streetA) \<Rightarrow> error + (string \<rightharpoonup> streetA)" where
  "addStreetA num lines i sts =
     (case readStreet num lines i of
        Inl e \<Rightarrow> Inl e
      | Inr (streetName, s) \<Rightarrow>
          if streetName = ''__proto__'' then Inl MalformedDataset
          else Inr (sts(streetName \<mapsto>
                      \<lparr>start = start s, end' = end' s, duration = duration s,
                       carIdQueue = []\<rparr>)))"

definition addCarA ::
  "reader \<Rightarrow> string list \<Rightarrow> int \<Rightarrow> int \<Rightarrow> (string \<rightharpoonup> streetA) \<times> car list
     \<Rightarrow> error + (string \<rightharpoonup> streetA) \<times> car list" where
  "addCarA num lines firstCar i = (\<lambda>(sts, cs).
     (case readRoute num lines i of
        Inl e \<Rightarrow> Inl e
      | Inr (n, names) \<Rightarrow>
          (case sts (nthName names 0) of
             None \<Rightarrow> Inl TypeError
           | Some s \<Rightarrow>
               Inr (sts(nthName names 0 \<mapsto> s\<lparr>carIdQueue := carIdQueue s @ [nat (i - firstCar)]\<rparr>),
                    cs @ [\<lparr>carNumStreets = n, streetNames = names, currentStreetIdx = 0,
                           remainingTimeOnStreet = 0, arrived = False, score = 0,
                           commuteTime = 0\<rparr>]))))"

definition parseInputDataSetA :: "reader \<Rightarrow> string list \<Rightarrow> error + (streetA, car) dataset" where
  "parseInputDataSetA num allLines =
     (case readSimulation num allLines of
        Inl e \<Rightarrow> Inl e
      | Inr sim \<Rightarrow>
          (case forEach (addStreetA num (tl allLines)) (streetIndexes sim) Map.empty of
             Inl e \<Rightarrow> Inl e
           | Inr sts \<Rightarrow>
               (case forEach (addCarA num (tl allLines) (numStreets sim)) (carIndexes sim) (sts, []) of
                  Inl e \<Rightarrow> Inl e
                | Inr (sts', cs) \<Rightarrow> Inr \<lparr>simulation = sim, streets = sts', cars = cs\<rparr>)))"

section \<open>Validating the submission\<close>

text \<open>A line of the submission that may be missing, used as a property name and as a
  number.\<close>

definition propertyName :: "string option \<Rightarrow> string" where
  "propertyName v = (case v of None \<Rightarrow> ''undefined'' | Some s \<Rightarrow> s)"

definition toNumber :: "reader \<Rightarrow> string option \<Rightarrow> int option" where
  "toNumber num v = (case v of None \<Rightarrow> None | Some s \<Rightarrow> num s)"

text \<open>The test that a scheduled street enters another intersection. It is skipped for
  a name the dataset does not know, unless the name is inherited: the function found
  under it has no \<^verbatim>\<open>end\<close>, and \<^verbatim>\<open>undefined\<close> differs from every number.\<close>

definition entersElsewhere ::
  "(string \<rightharpoonup> 'a street_scheme) \<Rightarrow> string \<Rightarrow> int option \<Rightarrow> bool" where
  "entersElsewhere sts streetName idNumber =
     (case sts streetName of
        None \<Rightarrow> inheritedName streetName
      | Some s \<Rightarrow> Some (end' s) \<noteq> idNumber)"

definition intersectionCount :: "reader \<Rightarrow> string list \<Rightarrow> nat" where
  "intersectionCount num allLines =
     (case allLines of [] \<Rightarrow> 0
      | l # rest \<Rightarrow> (case num l of None \<Rightarrow> 0 | Some n \<Rightarrow> nat n))"

subsection \<open>part_001\<close>

definition scheduleStreetQ ::
  "reader \<Rightarrow> int \<Rightarrow> string list \<Rightarrow> string option \<Rightarrow> int \<Rightarrow> int
     \<Rightarrow> (string \<rightharpoonup> streetQ) \<times> string list \<times> int
     \<Rightarrow> error + (string \<rightharpoonup> streetQ) \<times> string list \<times> int" where
  "scheduleStreetQ num horizon lines intersectionId base j = (\<lambda>(sts, names, lastScheduleTime).
     (case lineAt lines (base + j) of
        None \<Rightarrow> Inl TypeError
      | Some l \<Rightarrow>
          (let vs = parseLine num l [1]; streetName = nameAt vs 0
           in if entersElsewhere sts streetName (toNumber num intersectionId)
              then Inl (StreetIntersectionMismatch (propertyName intersectionId) streetName)
              else (case numberAt vs 1 of
                      None \<Rightarrow> Inl (MalformedGreenDuration streetName)
                    | Some g \<Rightarrow>
                        if g < 1 \<or> g > horizon then Inl (GreenDurationOutOfRange streetName)
                        else (case sts streetName of
                                None \<Rightarrow> Inl TypeError
                              | Some s \<Rightarrow>
                                  Inr (sts(streetName \<mapsto> s\<lparr>schedule :=
                                         Some \<lparr>gte = lastScheduleTime,
                                               lte = lastScheduleTime + g - 1\<rparr>\<rparr>),
                                       names @ [streetName],
                                       lastScheduleTime + g))))))"

definition setWindowQ ::
  "int \<Rightarrow> string \<Rightarrow> (string \<rightharpoonup> streetQ) \<Rightarrow> error + (string \<rightharpoonup> streetQ)" where
  "setWindowQ w streetName sts =
     (case sts streetName of
        None \<Rightarrow> Inl TypeError
      | Some s \<Rightarrow> Inr (sts(streetName \<mapsto> s\<lparr>scheduledTimeWindow := Some w\<rparr>)))"

definition scheduleIntersectionQ ::
  "reader \<Rightarrow> int \<Rightarrow> string list \<Rightarrow> int
     \<Rightarrow> int \<times> int \<times> (string \<Rightarrow> bool) \<times> (string \<rightharpoonup> streetQ) \<times> int
     \<Rightarrow> error + int \<times> int \<times> (string \<Rightarrow> bool) \<times> (string \<rightharpoonup> streetQ) \<times> int" where
  "scheduleIntersectionQ num horizon lines i = (\<lambda>(currentLine, numSchedules, byId, sts, cycles).
     (let intersectionId = lineAt lines (currentLine + i);
          numIncomingStreets = lineAt lines (currentLine + i + 1)
      in case numIncomingStreets of
           None \<Rightarrow> Inl (TruncatedSubmission (currentLine + i + 2))
         | Some r \<Rightarrow>
             (case num r of
                None \<Rightarrow> Inl (MalformedCount (currentLine + i + 3))
              | Some n \<Rightarrow>
                  if byId (propertyName intersectionId)
                  then Inl (DuplicateIntersectionSchedule (propertyName intersectionId))
                  else (case forEach
                               (scheduleStreetQ num horizon lines intersectionId (currentLine + i + 2))
                               (map int [0..<nat n]) (sts, [], 0) of
                          Inl e \<Rightarrow> Inl e
                        | Inr (sts1, names, lastScheduleTime) \<Rightarrow>
                            (case forEach (setWindowQ lastScheduleTime) names sts1 of
                               Inl e \<Rightarrow> Inl e
                             | Inr sts2 \<Rightarrow>
                                 Inr (currentLine + n + 1, numSchedules + n,
                                      byId(propertyName intersectionId := True), sts2,
                                      cycles + lastScheduleTime))))))"

definition parseSubmittedDataSetQ ::
  "reader \<Rightarrow> (streetQ, carQ) dataset \<Rightarrow> string list
     \<Rightarrow> error + (streetQ, carQ) dataset \<times> averageIntersectionSchedules" where
  "parseSubmittedDataSetQ num d allLines =
     (case forEach
             (scheduleIntersectionQ num (simulationDuration (simulation d)) (tl allLines))
             (map int [0..<intersectionCount num allLines])
             (0, 0, inheritedName, streets d, 0) of
        Inl e \<Rightarrow> Inl e
      | Inr (currentLine, numSchedules, byId, sts, cycles) \<Rightarrow>
          Inr (d\<lparr>streets := sts\<rparr>,
               \<lparr>greenCycles = jsDivide cycles numSchedules,
                totalCycles = jsDivide cycles (numIntersections (simulation d))\<rparr>))"

subsection \<open>index.js\<close>

definition scheduleStreetA ::
  "reader \<Rightarrow> int \<Rightarrow> (string \<rightharpoonup> streetA) \<Rightarrow> string list \<Rightarrow> string option \<Rightarrow> int \<Rightarrow> int
     \<Rightarrow> (string \<rightharpoonup> scheduleProperty) \<times> int \<times> int
     \<Rightarrow> error + (string \<rightharpoonup> scheduleProperty) \<times> int \<times> int" where
  "scheduleStreetA num horizon sts lines intersectionId base j = (\<lambda>(obj, lastScheduleTime, cycles).
     (case lineAt lines (base + j) of
        None \<Rightarrow> Inl TypeError
      | Some l \<Rightarrow>
          (let vs = parseLine num l [1]; streetName = nameAt vs 0
           in if entersElsewhere sts streetName (toNumber num intersectionId)
              then Inl (StreetIntersectionMismatch (propertyName intersectionId) streetName)
              else (case numberAt vs 1 of
                      None \<Rightarrow> Inl (MalformedGreenDuration streetName)
                    | Some g \<Rightarrow>
                        if g < 1 \<or> g > horizon then Inl (GreenDurationOutOfRange streetName)
                        else Inr (obj(streetName \<mapsto>
                                        Window lastScheduleTime (lastScheduleTime + g - 1)),
                                  lastScheduleTime + g, cycles + g)))))"

definition scheduleIntersectionA ::
  "reader \<Rightarrow> int \<Rightarrow> (string \<rightharpoonup> streetA) \<Rightarrow> string list \<Rightarrow> int
     \<Rightarrow> int \<times> int \<times> intersectionSchedules \<times> int
     \<Rightarrow> error + int \<times> int \<times> intersectionSchedules \<times> int" where
  "scheduleIntersectionA num horizon sts lines i = (\<lambda>(currentLine, numSchedules, byId, cycles).
     (let intersectionId = lineAt lines (currentLine + i);
          numIncomingStreets = lineAt lines (currentLine + i + 1)
      in case numIncomingStreets of
           None \<Rightarrow> Inl (TruncatedSubmission (currentLine + i + 2))
         | Some r \<Rightarrow>
             (case num r of
                None \<Rightarrow> Inl (MalformedCount (currentLine + i + 3))
              | Some n \<Rightarrow>
                  if byId (propertyName intersectionId) \<noteq> None
                     \<or> inheritedName (propertyName intersectionId)
                  then Inl (DuplicateIntersectionSchedule (propertyName intersectionId))
                  else (case forEach
                               (scheduleStreetA num horizon sts lines intersectionId
                                  (currentLine + i + 2))
                               (map int [0..<nat n]) (Map.empty, 0, cycles) of
                          Inl e \<Rightarrow> Inl e
                        | Inr (obj, lastScheduleTime, cycles') \<Rightarrow>
                            Inr (currentLine + n + 1, numSchedules + n,
                                 byId(propertyName intersectionId \<mapsto>
                                   obj(''scheduledTimeWindow'' \<mapsto> CycleLength lastScheduleTime)),
                                 cycles')))))"

definition parseSubmittedDataSetA ::
  "reader \<Rightarrow> (streetA, car) dataset \<Rightarrow> string list
     \<Rightarrow> error + intersectionSchedules \<times> averageIntersectionSchedules" where
  "parseSubmittedDataSetA num d allLines =
     (case forEach
             (scheduleIntersectionA num (simulationDuration (simulation d)) (streets d)
                (tl allLines))
             (map int [0..<intersectionCount num allLines])
             (0, 0, Map.empty, 0) of
        Inl e \<Rightarrow> Inl e
      | Inr (currentLine, numSchedules, byId, cycles) \<Rightarrow>
          Inr (byId,
               \<lparr>greenCycles = jsDivide cycles numSchedules,
                totalCycles = jsDivide cycles (numIntersections (simulation d))\<rparr>))"

section \<open>The simulation\<close>

text \<open>
  The body of the loop over the cars works on the marker of the streets crossed in
  this tick, the streets and the car it is given, and may throw. The loop itself gets
  the order in which the cars are visited; \<^verbatim>\<open>simulate\<close> visits them by ascending
  index.
\<close>

fun forCars ::
  "(nat \<Rightarrow> 'm \<times> 't \<times> 'c \<Rightarrow> error + 'm \<times> 't \<times> 'c) \<Rightarrow> nat list \<Rightarrow> 'm \<times> 't \<times> 'c list
     \<Rightarrow> error + 'm \<times> 't \<times> 'c list" where
  "forCars body [] x = Inr x"
| "forCars body (i # rest) (m, sts, cs) =
     (if i < length cs
      then (case body i (m, sts, cs ! i) of
              Inl e \<Rightarrow> Inl e
            | Inr (m', sts', c') \<Rightarrow> forCars body rest (m', sts', cs[i := c']))
      else Inl TypeError)"

text \<open>\<^verbatim>\<open>while (remainingTime--)\<close>: the test reads the counter, then the counter is
  decremented; the body sees the decremented value. A negative counter never reaches
  zero, and the loop does not return.\<close>

partial_function (option) whileRemaining ::
  "(int \<Rightarrow> int \<Rightarrow> 'd \<Rightarrow> error + 'd) \<Rightarrow> int \<Rightarrow> int \<Rightarrow> 'd \<Rightarrow> (error + 'd) option" where
  "whileRemaining body remainingTime time d =
     (if remainingTime = 0 then Some (Inr d)
      else (case body (remainingTime - 1) time d of
              Inl e \<Rightarrow> Some (Inl e)
            | Inr d' \<Rightarrow> whileRemaining body (remainingTime - 1) (time + 1) d'))"

declare whileRemaining.simps [code]

subsection \<open>part_001\<close>

definition isTrafficLightGreenQ :: "int \<Rightarrow> streetQ \<Rightarrow> bool" where
  "isTrafficLightGreenQ time s =
     (case schedule s of
        None \<Rightarrow> False
      | Some w \<Rightarrow>
          (case scheduledTimeWindow s of
             None \<Rightarrow> False
           | Some cycle \<Rightarrow>
               (case jsRemainder time cycle of
                  None \<Rightarrow> False
                | Some timePart \<Rightarrow> gte w \<le> timePart \<and> lte w \<ge> timePart)))"

definition enqueueQ :: "(string \<rightharpoonup> streetQ) \<Rightarrow> carQ \<Rightarrow> error + (string \<rightharpoonup> streetQ) \<times> carQ" where
  "enqueueQ sts c =
     (if remainingTimeOnStreet c = 1 \<and> int (currentStreetIdx c) < carNumStreets c - 1
      then (case sts (currentStreetName c) of
              None \<Rightarrow> Inl (absent (currentStreetName c))
            | Some s \<Rightarrow>
                Inr (sts(currentStreetName c \<mapsto> s\<lparr>nextQueuingNumber := nextQueuingNumber s + 1\<rparr>),
                     c\<lparr>queuingNumber := nextQueuingNumber s\<rparr>))
      else Inr (sts, c))"

definition drive :: "'a car_scheme \<Rightarrow> 'a car_scheme" where
  "drive c =
     (if remainingTimeOnStreet c > 0
      then c\<lparr>remainingTimeOnStreet := remainingTimeOnStreet c - 1\<rparr> else c)"

text \<open>The score of an arriving car is a sum of two numbers of JavaScript, which is the
  sum of the integers as long as both and their sum are safe integers
  (\<open>exactScores\<close> below).\<close>

definition arrive :: "int \<Rightarrow> int \<Rightarrow> int \<Rightarrow> 'a car_scheme \<Rightarrow> 'a car_scheme" where
  "arrive bonus remainingTime time c =
     c\<lparr>arrived := True, score := bonus + remainingTime, commuteTime := time\<rparr>"

definition crossQ ::
  "int \<Rightarrow> (string \<Rightarrow> bool) \<times> (string \<rightharpoonup> streetQ) \<times> carQ
     \<Rightarrow> error + (string \<Rightarrow> bool) \<times> (string \<rightharpoonup> streetQ) \<times> carQ" where
  "crossQ time = (\<lambda>(crossed, sts, c).
     (let streetName = currentStreetName c
      in case sts streetName of
           None \<Rightarrow> if inheritedName streetName then Inr (crossed, sts, c) else Inl TypeError
         | Some s \<Rightarrow>
             if \<not> isTrafficLightGreenQ time s \<or> crossed streetName
                \<or> lastQueuingNumber s + 1 \<noteq> queuingNumber c
             then Inr (crossed, sts, c)
             else (let sts' = sts(streetName \<mapsto> s\<lparr>lastQueuingNumber := queuingNumber c\<rparr>);
                       idx = currentStreetIdx c + 1;
                       nextName = nthName (streetNames c) idx
                   in case sts' nextName of
                        None \<Rightarrow> Inl (absent nextName)
                      | Some s' \<Rightarrow>
                          Inr (crossed(streetName := True), sts',
                               c\<lparr>currentStreetIdx := idx, currentStreetName := nextName,
                                 remainingTimeOnStreet := duration s'\<rparr>))))"

definition processCarQ ::
  "int \<Rightarrow> int \<Rightarrow> int \<Rightarrow> nat \<Rightarrow> (string \<Rightarrow> bool) \<times> (string \<rightharpoonup> streetQ) \<times> carQ
     \<Rightarrow> error + (string \<Rightarrow> bool) \<times> (string \<rightharpoonup> streetQ) \<times> carQ" where
  "processCarQ bonus remainingTime time i = (\<lambda>(crossed, sts, c).
     if arrived c then Inr (crossed, sts, c)
     else (case enqueueQ sts c of
             Inl e \<Rightarrow> Inl e
           | Inr (sts1, c1) \<Rightarrow>
               (let c2 = drive c1
                in if remainingTimeOnStreet c2 = 0
                   then if int (currentStreetIdx c2) = carNumStreets c2 - 1
                        then Inr (crossed, sts1, arrive bonus remainingTime time c2)
                        else if remainingTime = 0 then Inr (crossed, sts1, c2)
                        else crossQ time (crossed, sts1, c2)
                   else Inr (crossed, sts1, c2))))"

definition tickQ ::
  "nat list \<Rightarrow> int \<Rightarrow> int \<Rightarrow> (streetQ, carQ) dataset \<Rightarrow> error + (streetQ, carQ) dataset" where
  "tickQ order remainingTime time d =
     (case forCars (processCarQ (bonusPoint (simulation d)) remainingTime time) order
             (inheritedName, streets d, cars d) of
        Inl e \<Rightarrow> Inl e
      | Inr (crossed, sts, cs) \<Rightarrow> Inr (d\<lparr>streets := sts, cars := cs\<rparr>))"

definition simulateQ :: "(streetQ, carQ) dataset \<Rightarrow> (error + (streetQ, carQ) dataset) option" where
  "simulateQ d =
     whileRemaining (\<lambda>remainingTime time d'. tickQ [0..<length (cars d')] remainingTime time d')
       (simulationDuration (simulation d) + 1) 0 d"

subsection \<open>index.js\<close>

text \<open>The light of a street, read from the table under the key of the intersection the
  street enters. A name the object of the intersection does not hold is not scheduled,
  unless it is inherited: then the source takes the function it finds for a window and
  throws when it takes it apart.\<close>

definition scheduledGreen ::
  "intersectionSchedules \<Rightarrow> int \<Rightarrow> string \<Rightarrow> string \<Rightarrow> error + bool" where
  "scheduledGreen byId time key streetName =
     (case byId key of
        None \<Rightarrow> Inr False
      | Some obj \<Rightarrow>
          (case obj streetName of
             None \<Rightarrow> if inheritedName streetName then Inl TypeError else Inr False
           | Some (CycleLength n) \<Rightarrow> if n = 0 then Inr False else Inl TypeError
           | Some (Window g l) \<Rightarrow>
               (case obj ''scheduledTimeWindow'' of
                  Some (CycleLength cycle) \<Rightarrow>
                    (case jsRemainder time cycle of
                       None \<Rightarrow> Inr False
                     | Some timePart \<Rightarrow> Inr (g \<le> timePart \<and> l \<ge> timePart))
                | Some (Window g' l') \<Rightarrow> Inr False
                | None \<Rightarrow> Inr False)))"

definition isTrafficLightGreenA ::
  "intersectionSchedules \<Rightarrow> int \<Rightarrow> int \<Rightarrow> string \<Rightarrow> error + bool" where
  "isTrafficLightGreenA byId time e streetName = scheduledGreen byId time (numberKey e) streetName"

definition enqueueA :: "nat \<Rightarrow> (string \<rightharpoonup> streetA) \<Rightarrow> car \<Rightarrow> error + (string \<rightharpoonup> streetA)" where
  "enqueueA i sts c =
     (if remainingTimeOnStreet c = 1 \<and> int (currentStreetIdx c) < carNumStreets c - 1
      then (let streetName = nthName (streetNames c) (currentStreetIdx c)
            in case sts streetName of
                 None \<Rightarrow> Inl TypeError
               | Some s \<Rightarrow> Inr (sts(streetName \<mapsto> s\<lparr>carIdQueue := carIdQueue s @ [i]\<rparr>)))
      else Inr sts)"

definition crossA ::
  "intersectionSchedules \<Rightarrow> int \<Rightarrow> nat \<Rightarrow> (string \<Rightarrow> bool) \<times> (string \<rightharpoonup> streetA) \<times> car
     \<Rightarrow> error + (string \<Rightarrow> bool) \<times> (string \<rightharpoonup> streetA) \<times> car" where
  "crossA byId time i = (\<lambda>(crossed, sts, c).
     (let streetName = nthName (streetNames c) (currentStreetIdx c)
      in case sts streetName of
           None \<Rightarrow>
             if inheritedName streetName
             then (case scheduledGreen byId time ''undefined'' streetName of
                     Inl e \<Rightarrow> Inl e
                   | Inr green \<Rightarrow>
                       if \<not> green \<or> crossed streetName then Inr (crossed, sts, c)
                       else Inl TypeError)
             else Inl TypeError
         | Some s \<Rightarrow>
             (case isTrafficLightGreenA byId time (end' s) streetName of
                Inl e \<Rightarrow> Inl e
              | Inr green \<Rightarrow>
                  if \<not> green \<or> crossed streetName
                     \<or> (case carIdQueue s of [] \<Rightarrow> True | h # q \<Rightarrow> h \<noteq> i)
                  then Inr (crossed, sts, c)
                  else (let sts' = sts(streetName \<mapsto> s\<lparr>carIdQueue := tl (carIdQueue s)\<rparr>);
                            idx = currentStreetIdx c + 1
                        in case sts' (nthName (streetNames c) idx) of
                             None \<Rightarrow> Inl (absent (nthName (streetNames c) idx))
                           | Some s' \<Rightarrow>
                               Inr (crossed(streetName := True), sts',
                                    c\<lparr>currentStreetIdx := idx,
                                      remainingTimeOnStreet := duration s'\<rparr>)))))"

definition processCarA ::
  "intersectionSchedules \<Rightarrow> int \<Rightarrow> int \<Rightarrow> int \<Rightarrow> nat
     \<Rightarrow> (string \<Rightarrow> bool) \<times> (string \<rightharpoonup> streetA) \<times> car
     \<Rightarrow> error + (string \<Rightarrow> bool) \<times> (string \<rightharpoonup> streetA) \<times> car" where
  "processCarA byId bonus remainingTime time i = (\<lambda>(crossed, sts, c).
     if arrived c then Inr (crossed, sts, c)
     else (case enqueueA i sts c of
             Inl e \<Rightarrow> Inl e
           | Inr sts1 \<Rightarrow>
               (let c2 = drive c
                in if remainingTimeOnStreet c2 = 0
                   then if int (currentStreetIdx c2) = carNumStreets c2 - 1
                        then Inr (crossed, sts1, arrive bonus remainingTime time c2)
                        else if remainingTime = 0 then Inr (crossed, sts1, c2)
                        else crossA byId time i (crossed, sts1, c2)
                   else Inr (crossed, sts1, c2))))"

definition tickA ::
  "intersectionSchedules \<Rightarrow> nat list \<Rightarrow> int \<Rightarrow> int \<Rightarrow> (streetA, car) dataset
     \<Rightarrow> error + (streetA, car) dataset" where
  "tickA byId order remainingTime time d =
     (case forCars (processCarA byId (bonusPoint (simulation d)) remainingTime time) order
             (inheritedName, streets d, cars d) of
        Inl e \<Rightarrow> Inl e
      | Inr (crossed, sts, cs) \<Rightarrow> Inr (d\<lparr>streets := sts, cars := cs\<rparr>))"

definition simulateA ::
  "intersectionSchedules \<Rightarrow> (streetA, car) dataset \<Rightarrow> (error + (streetA, car) dataset) option" where
  "simulateA byId d =
     whileRemaining
       (\<lambda>remainingTime time d'. tickA byId [0..<nat (numCars (simulation d'))] remainingTime time d')
       (simulationDuration (simulation d) + 1) 0 d"

section \<open>The report\<close>

text \<open>The numbers \<^verbatim>\<open>createInsights\<close> prints, before they are formatted; the quotients
  are exact.\<close>

record insights =
  submissionScore :: int
  bonusPoints :: int
  earlyArrivalBonus :: int
  numArrivedCars :: int
  arrivedShare :: jsNumber
  earliestArrival :: "(int \<times> int) option"
  latestArrival :: "(int \<times> int) option"
  averageCommuteTime :: jsNumber
  trafficLights :: int
  schedules :: averageIntersectionSchedules

definition createInsights ::
  "('s, 'a car_scheme) dataset \<Rightarrow> averageIntersectionSchedules \<Rightarrow> insights" where
  "createInsights d avgs =
     (let arrivedCars = sort_key commuteTime (filter arrived (cars d));
          n = int (length arrivedCars);
          bonus = bonusPoint (simulation d)
      in \<lparr>submissionScore = sum_list (map score arrivedCars),
          bonusPoints = bonus * n,
          earlyArrivalBonus = sum_list (map (\<lambda>c. score c - bonus) arrivedCars),
          numArrivedCars = n,
          arrivedShare = jsDivide n (numCars (simulation d)),
          earliestArrival =
            (if arrivedCars = [] then None
             else Some (commuteTime (hd arrivedCars), score (hd arrivedCars))),
          latestArrival =
            (if arrivedCars = [] then None
             else Some (commuteTime (last arrivedCars), score (last arrivedCars))),
          averageCommuteTime = jsDivide (sum_list (map commuteTime arrivedCars)) n,
          trafficLights = numIntersections (simulation d),
          schedules = avgs\<rparr>)"

section \<open>The whole run\<close>

definition evaluateQ :: "reader \<Rightarrow> string \<Rightarrow> string \<Rightarrow> (error + insights) option" where
  "evaluateQ num inputDataSet submittedDataSet =
     (case parseInputDataSetQ num (splitOn (CHR 0x0A) inputDataSet) of
        Inl e \<Rightarrow> Some (Inl e)
      | Inr d \<Rightarrow>
          (case parseSubmittedDataSetQ num d (splitOn (CHR 0x0A) submittedDataSet) of
             Inl e \<Rightarrow> Some (Inl e)
           | Inr (d1, avgs) \<Rightarrow>
               (case simulateQ d1 of
                  None \<Rightarrow> None
                | Some (Inl e) \<Rightarrow> Some (Inl e)
                | Some (Inr d2) \<Rightarrow> Some (Inr (createInsights d2 avgs)))))"

definition evaluateA :: "reader \<Rightarrow> string \<Rightarrow> string \<Rightarrow> (error + insights) option" where
  "evaluateA num inputDataSet submittedDataSet =
     (case parseInputDataSetA num (splitOn (CHR 0x0A) inputDataSet) of
        Inl e \<Rightarrow> Some (Inl e)
      | Inr d \<Rightarrow>
          (case parseSubmittedDataSetA num d (splitOn (CHR 0x0A) submittedDataSet) of
             Inl e \<Rightarrow> Some (Inl e)
           | Inr (byId, avgs) \<Rightarrow>
               (case simulateA byId d of
                  None \<Rightarrow> None
                | Some (Inl e) \<Rightarrow> Some (Inl e)
                | Some (Inr d2) \<Rightarrow> Some (Inr (createInsights d2 avgs)))))"

section \<open>Observing a run\<close>

text \<open>
  The record of a loop over the cars lists every call of the body that returned: the
  index of the car, what the body was given and what it gave back. The record of a
  run lists them with the tick they belong to. Every property of "what happens
  during the simulation" below is a property of these records.
\<close>

fun carCalls ::
  "(nat \<Rightarrow> 'm \<times> 't \<times> 'c \<Rightarrow> error + 'm \<times> 't \<times> 'c) \<Rightarrow> nat list \<Rightarrow> 'm \<times> 't \<times> 'c list
     \<Rightarrow> (nat \<times> ('m \<times> 't \<times> 'c) \<times> ('m \<times> 't \<times> 'c)) list" where
  "carCalls body [] x = []"
| "carCalls body (i # rest) (m, sts, cs) =
     (if i < length cs
      then (case body i (m, sts, cs ! i) of
              Inl e \<Rightarrow> []
            | Inr (m', sts', c') \<Rightarrow>
                (i, (m, sts, cs ! i), (m', sts', c')) # carCalls body rest (m', sts', cs[i := c']))
      else [])"

text \<open>The first \<open>n\<close> ticks of a run of the given duration, from tick \<open>time\<close> on: the
  counter \<^verbatim>\<open>remainingTime\<close> is the duration minus the tick.\<close>

fun ticks :: "(int \<Rightarrow> int \<Rightarrow> 'd \<Rightarrow> error + 'd) \<Rightarrow> nat \<Rightarrow> int \<Rightarrow> int \<Rightarrow> 'd \<Rightarrow> error + 'd" where
  "ticks body 0 horizon time d = Inr d"
| "ticks body (Suc n) horizon time d =
     (case body (horizon - time) time d of
        Inl e \<Rightarrow> Inl e
      | Inr d' \<Rightarrow> ticks body n horizon (time + 1) d')"

fun runCalls ::
  "(int \<Rightarrow> int \<Rightarrow> 'd \<Rightarrow> 'x list) \<Rightarrow> (int \<Rightarrow> int \<Rightarrow> 'd \<Rightarrow> error + 'd) \<Rightarrow> nat \<Rightarrow> int \<Rightarrow> int \<Rightarrow> 'd
     \<Rightarrow> (int \<times> 'x) list" where
  "runCalls calls body 0 horizon time d = []"
| "runCalls calls body (Suc n) horizon time d =
     map (Pair time) (calls (horizon - time) time d)
     @ (case body (horizon - time) time d of
          Inl e \<Rightarrow> []
        | Inr d' \<Rightarrow> runCalls calls body n horizon (time + 1) d')"

type_synonym stateQ = "(string \<Rightarrow> bool) \<times> (string \<rightharpoonup> streetQ) \<times> carQ"

type_synonym stateA = "(string \<Rightarrow> bool) \<times> (string \<rightharpoonup> streetA) \<times> car"

definition callsQ ::
  "nat list \<Rightarrow> int \<Rightarrow> int \<Rightarrow> (streetQ, carQ) dataset \<Rightarrow> (nat \<times> stateQ \<times> stateQ) list" where
  "callsQ order remainingTime time d =
     carCalls (processCarQ (bonusPoint (simulation d)) remainingTime time) order
       (inheritedName, streets d, cars d)"

definition callsA ::
  "intersectionSchedules \<Rightarrow> nat list \<Rightarrow> int \<Rightarrow> int \<Rightarrow> (streetA, car) dataset
     \<Rightarrow> (nat \<times> stateA \<times> stateA) list" where
  "callsA byId order remainingTime time d =
     carCalls (processCarA byId (bonusPoint (simulation d)) remainingTime time) order
       (inheritedName, streets d, cars d)"

text \<open>A run that visits the cars of each tick in the order \<open>ord\<close> gives for the
  dataset at hand, and its record.\<close>

definition runQ ::
  "((streetQ, carQ) dataset \<Rightarrow> nat list) \<Rightarrow> nat \<Rightarrow> int \<Rightarrow> int \<Rightarrow> (streetQ, carQ) dataset
     \<Rightarrow> error + (streetQ, carQ) dataset" where
  "runQ ord n horizon time d = ticks (\<lambda>r t d'. tickQ (ord d') r t d') n horizon time d"

definition recordQ ::
  "((streetQ, carQ) dataset \<Rightarrow> nat list) \<Rightarrow> nat \<Rightarrow> int \<Rightarrow> int \<Rightarrow> (streetQ, carQ) dataset
     \<Rightarrow> (int \<times> nat \<times> stateQ \<times> stateQ) list" where
  "recordQ ord n horizon time d =
     runCalls (\<lambda>r t d'. callsQ (ord d') r t d') (\<lambda>r t d'. tickQ (ord d') r t d') n horizon time d"

definition runA ::
  "intersectionSchedules \<Rightarrow> ((streetA, car) dataset \<Rightarrow> nat list) \<Rightarrow> nat \<Rightarrow> int \<Rightarrow> int
     \<Rightarrow> (streetA, car) dataset \<Rightarrow> error + (streetA, car) dataset" where
  "runA byId ord n horizon time d =
     ticks (\<lambda>r t d'. tickA byId (ord d') r t d') n horizon time d"

definition recordA ::
  "intersectionSchedules \<Rightarrow> ((streetA, car) dataset \<Rightarrow> nat list) \<Rightarrow> nat \<Rightarrow> int \<Rightarrow> int
     \<Rightarrow> (streetA, car) dataset \<Rightarrow> (int \<times> nat \<times> stateA \<times> stateA) list" where
  "recordA byId ord n horizon time d =
     runCalls (\<lambda>r t d'. callsA byId (ord d') r t d') (\<lambda>r t d'. tickA byId (ord d') r t d')
       n horizon time d"

text \<open>The orders of the two sources, and the records of their runs.\<close>

definition ascendingQ :: "(streetQ, carQ) dataset \<Rightarrow> nat list" where
  "ascendingQ d = [0..<length (cars d)]"

definition ascendingA :: "(streetA, car) dataset \<Rightarrow> nat list" where
  "ascendingA d = [0..<nat (numCars (simulation d))]"

definition simulationRecordQ ::
  "(streetQ, carQ) dataset \<Rightarrow> (int \<times> nat \<times> stateQ \<times> stateQ) list" where
  "simulationRecordQ d =
     recordQ ascendingQ (nat (simulationDuration (simulation d) + 1))
       (simulationDuration (simulation d)) 0 d"

definition simulationRecordA ::
  "intersectionSchedules \<Rightarrow> (streetA, car) dataset \<Rightarrow> (int \<times> nat \<times> stateA \<times> stateA) list" where
  "simulationRecordA byId d =
     recordA byId ascendingA (nat (simulationDuration (simulation d) + 1))
       (simulationDuration (simulation d)) 0 d"

text \<open>The parts of what a call is given and gives back.\<close>

definition markerOf :: "'m \<times> 't \<times> 'c \<Rightarrow> 'm" where
  "markerOf x = fst x"

definition streetsOf :: "'m \<times> 't \<times> 'c \<Rightarrow> 't" where
  "streetsOf x = fst (snd x)"

definition carOf :: "'m \<times> 't \<times> 'c \<Rightarrow> 'c" where
  "carOf x = snd (snd x)"

text \<open>A call is a crossing when it moves the car to its next street; the street it
  leaves is the one its route names at its index (index.js reads it from the route,
  part_001 keeps it in \<^verbatim>\<open>currentStreetName\<close>).\<close>

definition crossing :: "'m \<times> 't \<times> 'a car_scheme \<Rightarrow> 'm \<times> 't \<times> 'a car_scheme \<Rightarrow> bool" where
  "crossing pre post = (currentStreetIdx (carOf post) \<noteq> currentStreetIdx (carOf pre))"

definition routeStreet :: "'a car_scheme \<Rightarrow> string" where
  "routeStreet c = nthName (streetNames c) (currentStreetIdx c)"

definition streetOf :: "'m \<times> 't \<times> 'a car_scheme \<Rightarrow> string" where
  "streetOf pre = routeStreet (carOf pre)"

text \<open>Both sources run the same loops around their own body; \<open>tickWith\<close>,
  \<open>runWith\<close> and \<open>recordWith\<close> are those loops for any body.\<close>

definition tickWith ::
  "(simulation \<Rightarrow> int \<Rightarrow> int \<Rightarrow> nat \<Rightarrow> (string \<Rightarrow> bool) \<times> (string \<rightharpoonup> 't) \<times> 'c
      \<Rightarrow> error + (string \<Rightarrow> bool) \<times> (string \<rightharpoonup> 't) \<times> 'c)
     \<Rightarrow> nat list \<Rightarrow> int \<Rightarrow> int \<Rightarrow> ('t, 'c) dataset \<Rightarrow> error + ('t, 'c) dataset" where
  "tickWith body order remainingTime time d =
     (case forCars (body (simulation d) remainingTime time) order
             (inheritedName, streets d, cars d) of
        Inl e \<Rightarrow> Inl e
      | Inr (crossed, sts, cs) \<Rightarrow> Inr (d\<lparr>streets := sts, cars := cs\<rparr>))"

definition runWith ::
  "(simulation \<Rightarrow> int \<Rightarrow> int \<Rightarrow> nat \<Rightarrow> (string \<Rightarrow> bool) \<times> (string \<rightharpoonup> 't) \<times> 'c
      \<Rightarrow> error + (string \<Rightarrow> bool) \<times> (string \<rightharpoonup> 't) \<times> 'c)
     \<Rightarrow> (('t, 'c) dataset \<Rightarrow> nat list) \<Rightarrow> nat \<Rightarrow> int \<Rightarrow> int \<Rightarrow> ('t, 'c) dataset
     \<Rightarrow> error + ('t, 'c) dataset" where
  "runWith body ord n horizon time d =
     ticks (\<lambda>r t d'. tickWith body (ord d') r t d') n horizon time d"

definition recordWith ::
  "(simulation \<Rightarrow> int \<Rightarrow> int \<Rightarrow> nat \<Rightarrow> (string \<Rightarrow> bool) \<times> (string \<rightharpoonup> 't) \<times> 'c
      \<Rightarrow> error + (string \<Rightarrow> bool) \<times> (string \<rightharpoonup> 't) \<times> 'c)
     \<Rightarrow> (('t, 'c) dataset \<Rightarrow> nat list) \<Rightarrow> nat \<Rightarrow> int \<Rightarrow> int \<Rightarrow> ('t, 'c) dataset
     \<Rightarrow> (int \<times> nat \<times> ((string \<Rightarrow> bool) \<times> (string \<rightharpoonup> 't) \<times> 'c) \<times> ((string \<Rightarrow> bool) \<times> (string \<rightharpoonup> 't) \<times> 'c)) list" where
  "recordWith body ord n horizon time d =
     runCalls
       (\<lambda>r t d'. carCalls (body (simulation d') r t) (ord d') (inheritedName, streets d', cars d'))
       (\<lambda>r t d'. tickWith body (ord d') r t d') n horizon time d"

definition bodyQ :: "simulation \<Rightarrow> int \<Rightarrow> int \<Rightarrow> nat \<Rightarrow> stateQ \<Rightarrow> error + stateQ" where
  "bodyQ sim = processCarQ (bonusPoint sim)"

definition bodyA ::
  "intersectionSchedules \<Rightarrow> simulation \<Rightarrow> int \<Rightarrow> int \<Rightarrow> nat \<Rightarrow> stateA \<Rightarrow> error + stateA" where
  "bodyA byId sim = processCarA byId (bonusPoint sim)"

section \<open>Reading numbers in the examples\<close>

text \<open>The reading of a run of decimal digits, with an optional minus sign, and of the
  empty text (which reads as zero). On such a text of at most fifteen digits it is what
  the unary plus gives; a longer run can name an integer that no number of JavaScript
  holds, which the unary plus rounds and this reading does not. It serves the examples
  below, which use no other numeric token.\<close>

definition digitOf :: "char \<Rightarrow> nat option" where
  "digitOf c =
     map_of [(CHR ''0'', 0), (CHR ''1'', 1), (CHR ''2'', 2), (CHR ''3'', 3), (CHR ''4'', 4),
             (CHR ''5'', 5), (CHR ''6'', 6), (CHR ''7'', 7), (CHR ''8'', 8), (CHR ''9'', 9)] c"

fun decimalFrom :: "nat \<Rightarrow> string \<Rightarrow> nat option" where
  "decimalFrom acc [] = Some acc"
| "decimalFrom acc (c # cs) =
     (case digitOf c of None \<Rightarrow> None | Some v \<Rightarrow> decimalFrom (10 * acc + v) cs)"

definition decimal :: reader where
  "decimal s =
     (case s of
        [] \<Rightarrow> Some 0
      | c # ds \<Rightarrow>
          if c = CHR ''-''
          then (if ds = [] then None else map_option (\<lambda>n. - int n) (decimalFrom 0 ds))
          else map_option int (decimalFrom 0 s))"

section \<open>An example\<close>

text \<open>Three streets of one second each around three intersections, three cars that all
  start on street \<open>a\<close>, and a submission that gives streets \<open>a\<close> and \<open>b\<close> a
  permanent green light. The datasets the two sources build from these files are
  \<open>exampleQ\<close> (validated) and \<open>exampleA\<close> with \<open>exampleSchedules\<close>.\<close>

definition exampleInput :: "string list" where
  "exampleInput =
     [''3 3 3 3 1000'', ''0 1 a 1'', ''1 2 b 1'', ''2 0 c 1'', ''3 a b c'', ''2 a b'', ''3 a b c'']"

definition exampleSubmission :: "string list" where
  "exampleSubmission = [''2'', ''1'', ''1'', ''a 1'', ''2'', ''1'', ''b 1'']"

definition exampleQ :: "(streetQ, carQ) dataset" where
  "exampleQ =
     fst (projr (parseSubmittedDataSetQ decimal
                   (projr (parseInputDataSetQ decimal exampleInput)) exampleSubmission))"

definition exampleA :: "(streetA, car) dataset" where
  "exampleA = projr (parseInputDataSetA decimal exampleInput)"

definition exampleSchedules :: intersectionSchedules where
  "exampleSchedules = fst (projr (parseSubmittedDataSetA decimal exampleA exampleSubmission))"

text \<open>The integers a number of JavaScript holds exactly together with their neighbours
  (\<^verbatim>\<open>Number.isSafeInteger\<close>). The counter of the remaining ticks, the clock and every
  score of a run are exact when the duration, the bonus and the greatest score it can
  give are safe.\<close>

definition safeInteger :: "int \<Rightarrow> bool" where
  "safeInteger n = (\<bar>n\<bar> < 2 ^ 53)"

definition exactScores :: "simulation \<Rightarrow> bool" where
  "exactScores sim =
     (safeInteger (simulationDuration sim + 1) \<and> safeInteger (bonusPoint sim)
      \<and> safeInteger (bonusPoint sim + simulationDuration sim))"

text \<open>What every arrived car of a run of duration \<open>horizon\<close> satisfies.\<close>

definition scored :: "int \<Rightarrow> int \<Rightarrow> 'a car_scheme \<Rightarrow> bool" where
  "scored bonus horizon c =
     (0 \<le> commuteTime c \<and> commuteTime c \<le> horizon
      \<and> score c = bonus + (horizon - commuteTime c))"

text \<open>What the simulation never changes of a street.\<close>

definition fixedQ :: "streetQ \<Rightarrow> street \<times> greenWindow option \<times> int option" where
  "fixedQ s = (street.truncate s, schedule s, scheduledTimeWindow s)"

definition fixedA :: "streetA \<Rightarrow> street" where
  "fixedA s = street.truncate s"

text \<open>The streets crossed in the calls of one tick, and the pairs of tick and street
  crossed in a run, in the order of the crossings.\<close>

definition crossedStreets ::
  "('a car_scheme \<Rightarrow> string) \<Rightarrow> (nat \<times> ('m \<times> 't \<times> 'a car_scheme) \<times> ('m \<times> 't \<times> 'a car_scheme)) list
     \<Rightarrow> string list" where
  "crossedStreets st calls =
     map (\<lambda>(i, pre, post). st (carOf pre)) (filter (\<lambda>(i, pre, post). crossing pre post) calls)"

definition crossedAt ::
  "('a car_scheme \<Rightarrow> string)
     \<Rightarrow> (int \<times> nat \<times> ('m \<times> 't \<times> 'a car_scheme) \<times> ('m \<times> 't \<times> 'a car_scheme)) list
     \<Rightarrow> (int \<times> string) list" where
  "crossedAt st calls =
     map (\<lambda>(t, i, pre, post). (t, st (carOf pre)))
       (filter (\<lambda>(t, i, pre, post). crossing pre post) calls)"

text \<open>A body keeps the marker of crossed streets when a crossing needs its street
  unmarked and marks it, and every other call leaves the marker alone.\<close>

definition marks ::
  "('a car_scheme \<Rightarrow> string)
     \<Rightarrow> (nat \<Rightarrow> (string \<Rightarrow> bool) \<times> 't \<times> 'a car_scheme \<Rightarrow> error + (string \<Rightarrow> bool) \<times> 't \<times> 'a car_scheme)
     \<Rightarrow> bool" where
  "marks st body =
     (\<forall>i m sts c m' sts' c'. body i (m, sts, c) = Inr (m', sts', c') \<longrightarrow>
        (if currentStreetIdx c' \<noteq> currentStreetIdx c
         then \<not> m (st c) \<and> m' = m(st c := True) else m' = m))"

text \<open>The queuing numbers with which a street is crossed, in the order of the
  crossings: in the calls of one tick, and in a run.\<close>

definition ticketsIn :: "string \<Rightarrow> (nat \<times> stateQ \<times> stateQ) list \<Rightarrow> int list" where
  "ticketsIn name calls =
     map (\<lambda>(i, pre, post). queuingNumber (carOf post))
       (filter (\<lambda>(i, pre, post). crossing pre post \<and> currentStreetName (carOf pre) = name) calls)"

definition ticketsOn :: "string \<Rightarrow> (int \<times> nat \<times> stateQ \<times> stateQ) list \<Rightarrow> int list" where
  "ticketsOn name calls =
     map (\<lambda>(t, i, pre, post). queuingNumber (carOf post))
       (filter (\<lambda>(t, i, pre, post). crossing pre post \<and> currentStreetName (carOf pre) = name)
          calls)"

fun consecutiveFrom :: "int \<Rightarrow> int list \<Rightarrow> bool" where
  "consecutiveFrom l [] = True"
| "consecutiveFrom l (x # xs) = (x = l + 1 \<and> consecutiveFrom x xs)"

text \<open>The numbers \<open>xs\<close> continue the counter \<open>l\<close> of a street, if the street exists.\<close>

definition continues :: "int option \<Rightarrow> int list \<Rightarrow> bool" where
  "continues l xs = (case l of None \<Rightarrow> xs = [] | Some l0 \<Rightarrow> consecutiveFrom l0 xs)"

section \<open>A street of two seconds\<close>




definition indexOf :: "int \<times> nat \<times> 'x \<times> 'x \<Rightarrow> nat" where
  "indexOf e = fst (snd e)"




section \<open>The example with a shorter horizon\<close>

text \<open>The example dataset with a duration of two seconds: the first two cars reach the
  end of their last street on the final tick, the third still waits on street \<open>a\<close>.\<close>

definition shortInput :: "string list" where
  "shortInput =
     [''2 3 3 3 1000'', ''0 1 a 1'', ''1 2 b 1'', ''2 0 c 1'', ''3 a b c'', ''2 a b'', ''3 a b c'']"


definition shortA :: "(streetA, car) dataset" where
  "shortA = projr (parseInputDataSetA decimal shortInput)"




section \<open>The submission file as its format describes it\<close>

text \<open>
  The file is a count of intersections followed by one block per intersection: a line
  with the intersection, a line with the count of its streets, and one line per street
  ending in its green duration. \<open>declaredBlocks\<close> reads, from a position on, the
  given number of blocks as they are declared: the count of each block and the green
  durations on its lines. The cycle length of a block is the total of its green
  durations.
\<close>

definition greenAt :: "reader \<Rightarrow> string list \<Rightarrow> int \<Rightarrow> int option" where
  "greenAt num lines p =
     (case lineAt lines p of None \<Rightarrow> None | Some l \<Rightarrow> numberAt (parseLine num l [1]) 1)"

fun declaredBlocks :: "reader \<Rightarrow> string list \<Rightarrow> nat \<Rightarrow> int \<Rightarrow> (int \<times> int option list) list" where
  "declaredBlocks num lines 0 pos = []"
| "declaredBlocks num lines (Suc k) pos =
     (case toNumber num (lineAt lines (pos + 1)) of
        None \<Rightarrow> []
      | Some n \<Rightarrow>
          (n, map (\<lambda>j. greenAt num lines (pos + 2 + j)) (map int [0..<nat n]))
          # declaredBlocks num lines k (pos + 2 + n))"

definition blocksOf :: "reader \<Rightarrow> string list \<Rightarrow> (int \<times> int option list) list" where
  "blocksOf num allLines = declaredBlocks num (tl allLines) (intersectionCount num allLines) 0"

definition total :: "int option list \<Rightarrow> int" where
  "total gs = sum_list (map (\<lambda>g. case g of None \<Rightarrow> 0 | Some v \<Rightarrow> v) gs)"

definition cycleLengths :: "(int \<times> int option list) list \<Rightarrow> int list" where
  "cycleLengths bs = map (\<lambda>b. total (snd b)) bs"

definition greenDurations :: "(int \<times> int option list) list \<Rightarrow> int option list" where
  "greenDurations bs = concat (map snd bs)"

definition declaredEntries :: "(int \<times> int option list) list \<Rightarrow> int" where
  "declaredEntries bs = sum_list (map fst bs)"

text \<open>What a validation that succeeds reports of a submission, for a dataset of the
  given duration and number of intersections.\<close>

definition reports ::
  "reader \<Rightarrow> simulation \<Rightarrow> string list \<Rightarrow> averageIntersectionSchedules \<Rightarrow> bool" where
  "reports num sim allLines avgs =
     (let bs = blocksOf num allLines
      in length bs = intersectionCount num allLines
         \<and> (\<forall>g \<in> set (greenDurations bs). \<exists>v. g = Some v \<and> 1 \<le> v \<and> v \<le> simulationDuration sim)
         \<and> totalCycles avgs = jsDivide (sum_list (cycleLengths bs)) (numIntersections sim)
         \<and> greenCycles avgs = jsDivide (total (greenDurations bs)) (declaredEntries bs)
         \<and> ((\<forall>b \<in> set bs. 0 \<le> fst b) \<longrightarrow> declaredEntries bs = int (length (greenDurations bs))))"

text \<open>The dataset part_001 builds from the example file, before the submission is read.\<close>

definition exampleDataset :: "(streetQ, carQ) dataset" where
  "exampleDataset = projr (parseInputDataSetQ decimal exampleInput)"

section \<open>The lines a submission declares\<close>

text \<open>
  The number of lines that \<open>k\<close> blocks starting at line \<open>pos\<close> need according to the
  counts they declare: two lines for the intersection and its count, and one line per
  declared street. Where the count of a block cannot be read, the blocks still to come
  need at least their two lines each. A submission is truncated when it has fewer
  lines after its first than its declared counts need.
\<close>

fun requiredLines :: "reader \<Rightarrow> string list \<Rightarrow> nat \<Rightarrow> int \<Rightarrow> int" where
  "requiredLines num lines 0 pos = pos"
| "requiredLines num lines (Suc k) pos =
     (case toNumber num (lineAt lines (pos + 1)) of
        None \<Rightarrow> pos + 2 * int (Suc k)
      | Some n \<Rightarrow> requiredLines num lines k (pos + 2 + n))"

definition truncated :: "reader \<Rightarrow> string list \<Rightarrow> bool" where
  "truncated num allLines =
     (int (length (tl allLines))
        < requiredLines num (tl allLines) (intersectionCount num allLines) 0)"

text \<open>A submission that declares one intersection with two streets and names one.\<close>

definition shortSubmission :: "string list" where
  "shortSubmission = [''1'', ''1'', ''2'', ''a 1'']"

text \<open>A submission that declares two intersections and ends after the first.\<close>

definition halfSubmission :: "string list" where
  "halfSubmission = [''2'', ''1'', ''1'', ''a 1'']"

text \<open>The text of a file with the given lines.\<close>

fun unlines :: "string list \<Rightarrow> string" where
  "unlines [] = []"
| "unlines [l] = l"
| "unlines (l # m # ls) = l @ CHR 0x0A # unlines (m # ls)"

section \<open>The two sources on one submission\<close>

text \<open>A dataset as the contest gives it: the duration is not negative, every street
  takes at least one second, every route has at least one street, and no street bears
  the name under which index.js keeps the cycle length of an intersection.\<close>

definition wellFormed :: "(streetQ, carQ) dataset \<Rightarrow> bool" where
  "wellFormed d =
     (0 \<le> simulationDuration (simulation d)
      \<and> (\<forall>s \<in> ran (streets d). 1 \<le> duration s)
      \<and> (\<forall>c \<in> set (cars d). 1 \<le> carNumStreets c)
      \<and> streets d ''scheduledTimeWindow'' = None)"

text \<open>The example submission with the first intersection written with a leading zero,
  and the table index.js builds from it.\<close>

definition paddedSubmission :: "string list" where
  "paddedSubmission = [''2'', ''01'', ''1'', ''a 1'', ''2'', ''1'', ''b 1'']"

definition paddedSchedules :: intersectionSchedules where
  "paddedSchedules = fst (projr (parseSubmittedDataSetA decimal exampleA paddedSubmission))"

section \<open>A street with an inherited name\<close>

text \<open>One car drives to the end of a street and on to street \<open>b\<close>. Its first street
  enters intersection 1, as does street \<open>c\<close>; it is named \<open>a\<close> in one dataset and
  \<^verbatim>\<open>constructor\<close>, a name the contest allows, in the other. One submission gives the
  first street a permanent green light, the other gives it to street \<open>c\<close>.\<close>

definition plainInput :: "string list" where
  "plainInput = [''2 3 3 1 10'', ''0 1 a 1'', ''1 2 b 1'', ''2 1 c 1'', ''2 a b'']"

definition namedInput :: "string list" where
  "namedInput =
     [''2 3 3 1 10'', ''0 1 constructor 1'', ''1 2 b 1'', ''2 1 c 1'', ''2 constructor b'']"

definition plainSubmission :: "string list" where
  "plainSubmission = [''1'', ''1'', ''1'', ''a 1'']"

definition listedSubmission :: "string list" where
  "listedSubmission = [''1'', ''1'', ''1'', ''constructor 1'']"

definition unlistedSubmission :: "string list" where
  "unlistedSubmission = [''1'', ''1'', ''1'', ''c 1'']"

section \<open>Loops\<close>

lemma projections [simp]:
  "markerOf (m, sts, c) = m" "streetsOf (m, sts, c) = sts" "carOf (m, sts, c) = c"
  by (simp_all add: markerOf_def streetsOf_def carOf_def)

lemma whileRemaining_ticks:
  "whileRemaining body (int n) time d = Some (ticks body n (int n - 1 + time) time d)"
proof (induction n arbitrary: time d)
  case 0
  show ?case by (subst whileRemaining.simps) simp
next
  case (Suc n)
  have "whileRemaining body (int (Suc n)) time d =
          (case body (int n) time d of Inl e \<Rightarrow> Some (Inl e)
           | Inr d' \<Rightarrow> whileRemaining body (int n) (time + 1) d')"
    by (subst whileRemaining.simps) (simp split: sum.splits)
  also have "\<dots> = Some (ticks body (Suc n) (int (Suc n) - 1 + time) time d)"
  proof (cases "body (int n) time d")
    case (Inl e)
    then show ?thesis by simp
  next
    case (Inr d')
    have "int n - 1 + (time + 1) = int n + time" by simp
    then show ?thesis using Inr Suc.IH[of "time + 1" d'] by simp
  qed
  finally show ?case .
qed

lemma simulateQ_run:
  assumes "0 \<le> simulationDuration (simulation d)"
  shows "simulateQ d =
           Some (runQ ascendingQ (nat (simulationDuration (simulation d) + 1))
                   (simulationDuration (simulation d)) 0 d)"
proof -
  have "simulationDuration (simulation d) + 1 = int (nat (simulationDuration (simulation d) + 1))"
    using assms by simp
  then have "simulateQ d = whileRemaining (\<lambda>r t d'. tickQ [0..<length (cars d')] r t d')
       (int (nat (simulationDuration (simulation d) + 1))) 0 d"
    unfolding simulateQ_def by simp
  also have "\<dots> = Some (runQ ascendingQ (nat (simulationDuration (simulation d) + 1))
                   (simulationDuration (simulation d)) 0 d)"
    unfolding whileRemaining_ticks runQ_def ascendingQ_def using assms by simp
  finally show ?thesis .
qed


lemma forCars_invariant:
  assumes "\<And>i m sts cs m' sts' c'.
      \<lbrakk>J (m, sts, cs); i < length cs; body i (m, sts, cs ! i) = Inr (m', sts', c')\<rbrakk>
      \<Longrightarrow> J (m', sts', cs[i := c'])"
  shows "J x \<Longrightarrow> forCars body order x = Inr y \<Longrightarrow> J y"
proof (induction order arbitrary: x)
  case Nil
  then show ?case by simp
next
  case (Cons i rest)
  obtain m sts cs where x: "x = (m, sts, cs)" by (cases x)
  from Cons.prems(2) x have lt: "i < length cs" by (auto split: if_splits)
  from Cons.prems(2) x lt obtain m' sts' c' where b: "body i (m, sts, cs ! i) = Inr (m', sts', c')"
    and r: "forCars body rest (m', sts', cs[i := c']) = Inr y"
    by (cases "body i (m, sts, cs ! i)") auto
  have "J (m', sts', cs[i := c'])" using assms[OF _ lt b] Cons.prems(1) x by simp
  then show ?case using Cons.IH r by blast
qed

lemma carCalls_entry:
  "(i, pre, post) \<in> set (carCalls body order x) \<Longrightarrow>
     \<exists>o1 o2 m sts cs. order = o1 @ i # o2 \<and> forCars body o1 x = Inr (m, sts, cs)
        \<and> i < length cs \<and> pre = (m, sts, cs ! i) \<and> body i pre = Inr post"
proof (induction order arbitrary: x)
  case Nil
  then show ?case by simp
next
  case (Cons j rest)
  obtain m sts cs where x: "x = (m, sts, cs)" by (cases x)
  from Cons.prems have p: "(i, pre, post) \<in> set (carCalls body (j # rest) (m, sts, cs))"
    unfolding x .
  have lt: "j < length cs"
  proof (rule ccontr)
    assume "\<not> j < length cs"
    with p show False by simp
  qed
  have "\<exists>m' sts' c'. body j (m, sts, cs ! j) = Inr (m', sts', c')"
  proof (cases "body j (m, sts, cs ! j)")
    case (Inl e)
    with p lt show ?thesis by simp
  next
    case (Inr y)
    then show ?thesis by (cases y) simp
  qed
  then obtain m' sts' c' where b: "body j (m, sts, cs ! j) = Inr (m', sts', c')"
    by blast
  from p lt b
  consider "i = j \<and> pre = (m, sts, cs ! j) \<and> post = (m', sts', c')"
    | "(i, pre, post) \<in> set (carCalls body rest (m', sts', cs[j := c']))"
    by auto
  then show ?case
  proof cases
    case 1
    then have "j # rest = [] @ i # rest \<and> forCars body [] x = Inr (m, sts, cs)
        \<and> i < length cs \<and> pre = (m, sts, cs ! i) \<and> body i pre = Inr post"
      using lt b x by simp
    then show ?thesis by blast
  next
    case 2
    from Cons.IH[OF 2]
    obtain o1 o2 m1 sts1 cs1 where h: "rest = o1 @ i # o2"
      "forCars body o1 (m', sts', cs[j := c']) = Inr (m1, sts1, cs1)"
      "i < length cs1" "pre = (m1, sts1, cs1 ! i)" "body i pre = Inr post"
      by blast
    then have "j # rest = (j # o1) @ i # o2 \<and> forCars body (j # o1) x = Inr (m1, sts1, cs1)
        \<and> i < length cs1 \<and> pre = (m1, sts1, cs1 ! i) \<and> body i pre = Inr post"
      using lt b x by simp
    then show ?thesis by blast
  qed
qed

lemma ticks_add:
  "ticks body (k + n) horizon time d =
     (case ticks body k horizon time d of Inl e \<Rightarrow> Inl e
      | Inr d' \<Rightarrow> ticks body n horizon (time + int k) d')"
proof (induction k arbitrary: time d)
  case 0
  show ?case by simp
next
  case (Suc k)
  show ?case
  proof (cases "body (horizon - time) time d")
    case (Inl e)
    then show ?thesis by simp
  next
    case (Inr d1)
    have e: "time + 1 + int k = time + int (Suc k)" by simp
    show ?thesis using Inr Suc.IH[of "time + 1" d1] unfolding e by simp
  qed
qed

lemma ticks_invariant:
  assumes "\<And>k d1 d2. \<lbrakk>I d1; k < n; body (horizon - (time + int k)) (time + int k) d1 = Inr d2\<rbrakk> \<Longrightarrow> I d2"
  shows "I d \<Longrightarrow> ticks body n horizon time d = Inr d' \<Longrightarrow> I d'"
  using assms
proof (induction n arbitrary: time d)
  case 0
  then show ?case by simp
next
  case (Suc n)
  from Suc.prems(2) obtain d1 where b: "body (horizon - time) time d = Inr d1"
    and r: "ticks body n horizon (time + 1) d1 = Inr d'"
    by (auto split: sum.splits)
  have "I d1" using Suc.prems(3)[of d 0 d1] Suc.prems(1) b by simp
  moreover have "\<And>k da db. \<lbrakk>I da; k < n;
      body (horizon - (time + 1 + int k)) (time + 1 + int k) da = Inr db\<rbrakk> \<Longrightarrow> I db"
  proof -
    fix k da db
    assume h: "I da" "k < n" "body (horizon - (time + 1 + int k)) (time + 1 + int k) da = Inr db"
    have e: "time + int (Suc k) = time + 1 + int k" by simp
    have "Suc k < Suc n" using h(2) by simp
    from Suc.prems(3)[OF h(1) this, unfolded e, OF h(3)] show "I db" .
  qed
  ultimately show ?case using Suc.IH[of d1 "time + 1"] r by blast
qed

lemma runCalls_entry:
  "(t, x) \<in> set (runCalls calls body n horizon time d) \<Longrightarrow>
     \<exists>k d'. k < n \<and> t = time + int k \<and> ticks body k horizon time d = Inr d'
        \<and> x \<in> set (calls (horizon - t) t d')"
proof (induction n arbitrary: time d)
  case 0
  then show ?case by simp
next
  case (Suc n)
  from Suc.prems
  consider "t = time \<and> x \<in> set (calls (horizon - time) time d)"
    | d1 where "body (horizon - time) time d = Inr d1"
        "(t, x) \<in> set (runCalls calls body n horizon (time + 1) d1)"
    by (cases "body (horizon - time) time d") auto
  then show ?case
  proof cases
    case 1
    then have "0 < Suc n \<and> t = time + int 0 \<and> ticks body 0 horizon time d = Inr d
        \<and> x \<in> set (calls (horizon - t) t d)" by simp
    then show ?thesis by blast
  next
    case 2
    from Suc.IH[OF 2(2)] obtain k d' where h: "k < n" "t = time + 1 + int k"
      "ticks body k horizon (time + 1) d1 = Inr d'" "x \<in> set (calls (horizon - t) t d')"
      by blast
    then have "Suc k < Suc n \<and> t = time + int (Suc k) \<and> ticks body (Suc k) horizon time d = Inr d'
        \<and> x \<in> set (calls (horizon - t) t d')"
      using 2(1) by simp
    then show ?thesis by blast
  qed
qed

lemma simulateA_run:
  assumes "0 \<le> simulationDuration (simulation d)"
  shows "simulateA byId d =
           Some (runA byId ascendingA (nat (simulationDuration (simulation d) + 1))
                   (simulationDuration (simulation d)) 0 d)"
proof -
  have "simulationDuration (simulation d) + 1 = int (nat (simulationDuration (simulation d) + 1))"
    using assms by simp
  then have "simulateA byId d =
      whileRemaining (\<lambda>r t d'. tickA byId [0..<nat (numCars (simulation d'))] r t d')
       (int (nat (simulationDuration (simulation d) + 1))) 0 d"
    unfolding simulateA_def by simp
  also have "\<dots> = Some (runA byId ascendingA (nat (simulationDuration (simulation d) + 1))
                   (simulationDuration (simulation d)) 0 d)"
    unfolding whileRemaining_ticks runA_def ascendingA_def using assms by simp
  finally show ?thesis .
qed

lemma tickQ_With: "tickQ = tickWith bodyQ"
  by (intro ext) (simp add: tickQ_def tickWith_def bodyQ_def)

lemma tickA_With: "tickA byId = tickWith (bodyA byId)"
  by (intro ext) (simp add: tickA_def tickWith_def bodyA_def)

lemma runQ_With: "runQ = runWith bodyQ"
  by (intro ext) (simp add: runQ_def runWith_def tickQ_With)

lemma runA_With: "runA byId = runWith (bodyA byId)"
  by (intro ext) (simp add: runA_def runWith_def tickA_With)

lemma recordQ_With: "recordQ = recordWith bodyQ"
  by (intro ext) (simp add: recordQ_def recordWith_def tickQ_With callsQ_def bodyQ_def)

lemma recordA_With: "recordA byId = recordWith (bodyA byId)"
  by (intro ext) (simp add: recordA_def recordWith_def tickA_With callsA_def bodyA_def)

lemma tickWith_invariant:
  assumes pres: "\<And>i m sts cs m' sts' c'.
      \<lbrakk>K sts cs; i < length cs; body (simulation d) r t i (m, sts, cs ! i) = Inr (m', sts', c')\<rbrakk>
      \<Longrightarrow> K sts' (cs[i := c'])"
    and init: "K (streets d) (cars d)"
    and tick: "tickWith body order r t d = Inr d'"
  shows "K (streets d') (cars d') \<and> simulation d' = simulation d"
proof -
  from tick obtain m sts cs where f: "forCars (body (simulation d) r t) order
      (inheritedName, streets d, cars d) = Inr (m, sts, cs)" and d': "d' = d\<lparr>streets := sts, cars := cs\<rparr>"
    by (auto simp: tickWith_def split: sum.splits)
  have "(\<lambda>(m, sts, cs). K sts cs) (m, sts, cs)"
  proof (rule forCars_invariant[where J = "\<lambda>(m, sts, cs). K sts cs", OF _ _ f])
    show "(\<lambda>(m, sts, cs). K sts cs) (inheritedName, streets d, cars d)" using init by simp
  next
    fix i m sts cs m' sts' c'
    assume "(\<lambda>(m, sts, cs). K sts cs) (m, sts, cs)" "i < length cs"
      "body (simulation d) r t i (m, sts, cs ! i) = Inr (m', sts', c')"
    then show "(\<lambda>(m, sts, cs). K sts cs) (m', sts', cs[i := c'])" using pres by simp
  qed
  then show ?thesis using d' by simp
qed

lemma runWith_invariant:
  assumes pres: "\<And>t i m sts cs m' sts' c'.
      \<lbrakk>K sts cs; i < length cs; time \<le> t; t < time + int n;
       body (simulation d) (horizon - t) t i (m, sts, cs ! i) = Inr (m', sts', c')\<rbrakk>
      \<Longrightarrow> K sts' (cs[i := c'])"
    and init: "K (streets d) (cars d)"
    and run: "runWith body ord n horizon time d = Inr d'"
  shows "K (streets d') (cars d') \<and> simulation d' = simulation d"
proof -
  let ?I = "\<lambda>d1. K (streets d1) (cars d1) \<and> simulation d1 = simulation d"
  have "?I d'"
  proof (rule ticks_invariant[where I = ?I, OF _ _ run[unfolded runWith_def]])
    show "?I d" using init by simp
  next
    fix k d1 d2
    assume h: "?I d1" "k < n"
      "tickWith body (ord d1) (horizon - (time + int k)) (time + int k) d1 = Inr d2"
    have "K (streets d2) (cars d2) \<and> simulation d2 = simulation d1"
    proof (rule tickWith_invariant[where K = K, OF _ _ h(3)])
      show "K (streets d1) (cars d1)" using h(1) by simp
    next
      fix i m sts cs m' sts' c'
      assume "K sts cs" "i < length cs"
        "body (simulation d1) (horizon - (time + int k)) (time + int k) i (m, sts, cs ! i)
           = Inr (m', sts', c')"
      then show "K sts' (cs[i := c'])"
        using pres[of sts cs i "time + int k" m m' sts' c'] h(1,2) by simp
    qed
    then show "?I d2" using h(1) by simp
  qed
  then show ?thesis .
qed

lemma runWith_shorter:
  assumes "runWith body ord n horizon time d = Inr d'" "k \<le> n"
  shows "\<exists>d1. runWith body ord k horizon time d = Inr d1"
proof -
  have "n = k + (n - k)" using assms(2) by simp
  then have "ticks (\<lambda>r t d'. tickWith body (ord d') r t d') (k + (n - k)) horizon time d = Inr d'"
    using assms(1) unfolding runWith_def by simp
  then show ?thesis unfolding runWith_def ticks_add by (auto split: sum.splits)
qed

lemma recordWith_entry:
  assumes pres: "\<And>t i m sts cs m' sts' c'.
      \<lbrakk>K sts cs; i < length cs; time \<le> t; t < time + int n;
       body (simulation d) (horizon - t) t i (m, sts, cs ! i) = Inr (m', sts', c')\<rbrakk>
      \<Longrightarrow> K sts' (cs[i := c'])"
    and init: "K (streets d) (cars d)"
    and entry: "(t, i, pre, post) \<in> set (recordWith body ord n horizon time d)"
  shows "\<exists>cs. K (streetsOf pre) cs \<and> i < length cs \<and> carOf pre = cs ! i
           \<and> time \<le> t \<and> t < time + int n
           \<and> body (simulation d) (horizon - t) t i pre = Inr post"
proof -
  from runCalls_entry[OF entry[unfolded recordWith_def]]
  obtain k d1 where k: "k < n" "t = time + int k"
    and run: "runWith body ord k horizon time d = Inr d1"
    and e: "(i, pre, post) \<in> set (carCalls (body (simulation d1) (horizon - t) t) (ord d1)
              (inheritedName, streets d1, cars d1))"
    unfolding runWith_def by blast
  have inv: "K (streets d1) (cars d1) \<and> simulation d1 = simulation d"
  proof (rule runWith_invariant[where K = K, OF _ init run])
    fix t' i m sts cs m' sts' c'
    assume "K sts cs" "i < length cs" "time \<le> t'" "t' < time + int k"
      "body (simulation d) (horizon - t') t' i (m, sts, cs ! i) = Inr (m', sts', c')"
    then show "K sts' (cs[i := c'])" using pres[of sts cs i t' m m' sts' c'] k(1) by simp
  qed
  from carCalls_entry[OF e] obtain o1 o2 m sts cs where
    o: "forCars (body (simulation d1) (horizon - t) t) o1 (inheritedName, streets d1, cars d1)
          = Inr (m, sts, cs)"
    and i: "i < length cs" "pre = (m, sts, cs ! i)"
      "body (simulation d1) (horizon - t) t i pre = Inr post"
    by blast
  have "(\<lambda>(m, sts, cs). K sts cs) (m, sts, cs)"
  proof (rule forCars_invariant[where J = "\<lambda>(m, sts, cs). K sts cs", OF _ _ o])
    show "(\<lambda>(m, sts, cs). K sts cs) (inheritedName, streets d1, cars d1)" using inv by simp
  next
    fix i m sts cs m' sts' c'
    assume "(\<lambda>(m, sts, cs). K sts cs) (m, sts, cs)" "i < length cs"
      "body (simulation d1) (horizon - t) t i (m, sts, cs ! i) = Inr (m', sts', c')"
    then show "(\<lambda>(m, sts, cs). K sts cs) (m', sts', cs[i := c'])"
      using pres[of sts cs i t m m' sts' c'] k inv by simp
  qed
  then have "K (streetsOf pre) cs \<and> i < length cs \<and> carOf pre = cs ! i
           \<and> time \<le> t \<and> t < time + int n
           \<and> body (simulation d) (horizon - t) t i pre = Inr post"
    using i k inv by simp
  then show ?thesis by blast
qed

lemmas parse_defs = readSimulation_def parseLine_def integerAt_def numberAt_def decimal_def
  digitOf_def streetIndexes_def carIndexes_def readStreet_def lineAt_def nameAt_def
  readRoute_def nthName_def textOf_def enumerate_eq_zip upt_rec propertyName_def toNumber_def
  entersElsewhere_def intersectionCount_def jsDivide_def Let_def
  inheritedName_def inheritedNames_def absent_def

lemmas parseQ_defs = parseInputDataSetQ_def addStreetQ_def addCarQ_def
  parseSubmittedDataSetQ_def scheduleIntersectionQ_def scheduleStreetQ_def setWindowQ_def

lemmas parseA_defs = parseInputDataSetA_def addStreetA_def addCarA_def
  parseSubmittedDataSetA_def scheduleIntersectionA_def scheduleStreetA_def

lemmas stepQ_defs = tickQ_def processCarQ_def enqueueQ_def drive_def arrive_def crossQ_def
  isTrafficLightGreenQ_def jsRemainder_def absent_def

lemmas stepA_defs = tickA_def processCarA_def enqueueA_def drive_def arrive_def crossA_def
  isTrafficLightGreenA_def scheduledGreen_def jsRemainder_def numberKey_def natKey.simps
  absent_def

lemmas exampleQ_defs = exampleQ_def exampleInput_def exampleSubmission_def parse_defs parseQ_defs

lemmas exampleA_defs = exampleA_def exampleSchedules_def exampleInput_def exampleSubmission_def
  parse_defs parseA_defs

lemmas recordQ_defs = simulationRecordQ_def recordQ_def callsQ_def ascendingQ_def stepQ_defs
  numeral_eq_Suc inheritedName_def inheritedNames_def

lemmas recordA_defs = simulationRecordA_def recordA_def callsA_def ascendingA_def stepA_defs
  numeral_eq_Suc inheritedName_def inheritedNames_def

lemma isTrafficLightGreenQ_counters [simp]:
  "isTrafficLightGreenQ t (s\<lparr>nextQueuingNumber := x\<rparr>) = isTrafficLightGreenQ t s"
  "isTrafficLightGreenQ t (s\<lparr>lastQueuingNumber := y\<rparr>) = isTrafficLightGreenQ t s"
  by (simp_all add: isTrafficLightGreenQ_def split: option.splits)

lemma processCarQ_arrived:
  "arrived c \<Longrightarrow> processCarQ bonus r t i (m, sts, c) = Inr (m, sts, c)"
  by (simp add: processCarQ_def)

lemma processCarA_arrived:
  "arrived c \<Longrightarrow> processCarA byId bonus r t i (m, sts, c) = Inr (m, sts, c)"
  by (simp add: processCarA_def)

lemma processCarQ_arrival:
  assumes "processCarQ bonus r t i (m, sts, c) = Inr (m', sts', c')" "\<not> arrived c" "arrived c'"
  shows "score c' = bonus + r \<and> commuteTime c' = t \<and> m' = m
         \<and> currentStreetIdx c' = currentStreetIdx c
         \<and> int (currentStreetIdx c) = carNumStreets c - 1 \<and> remainingTimeOnStreet c' = 0"
  using assms
  by (auto simp: processCarQ_def enqueueQ_def drive_def arrive_def crossQ_def Let_def
           split: if_splits option.splits sum.splits)

lemma processCarA_arrival:
  assumes "processCarA byId bonus r t i (m, sts, c) = Inr (m', sts', c')" "\<not> arrived c" "arrived c'"
  shows "score c' = bonus + r \<and> commuteTime c' = t \<and> m' = m
         \<and> currentStreetIdx c' = currentStreetIdx c
         \<and> int (currentStreetIdx c) = carNumStreets c - 1 \<and> remainingTimeOnStreet c' = 0"
  using assms
  by (auto simp: processCarA_def enqueueA_def drive_def arrive_def crossA_def Let_def
           split: if_splits option.splits sum.splits list.splits)

lemma scored_update:
  assumes K: "\<forall>c \<in> set cs. arrived c \<longrightarrow> scored bonus horizon c"
    and c': "arrived c' \<longrightarrow> scored bonus horizon c'"
  shows "\<forall>c \<in> set (cs[i := c']). arrived c \<longrightarrow> scored bonus horizon c"
proof
  fix c assume "c \<in> set (cs[i := c'])"
  then have "c = c' \<or> c \<in> set cs" using set_update_subset_insert[of cs i c'] by auto
  then show "arrived c \<longrightarrow> scored bonus horizon c" using K c' by blast
qed

lemma scoredQ_preserved:
  assumes "\<forall>c \<in> set cs. arrived c \<longrightarrow> scored bonus horizon c" "i < length cs"
    "0 \<le> t" "t \<le> horizon"
    "processCarQ bonus (horizon - t) t i (m, sts, cs ! i) = Inr (m', sts', c')"
  shows "\<forall>c \<in> set (cs[i := c']). arrived c \<longrightarrow> scored bonus horizon c"
proof (rule scored_update[OF assms(1)])
  show "arrived c' \<longrightarrow> scored bonus horizon c'"
  proof (cases "arrived (cs ! i)")
    case True
    then have "c' = cs ! i" using assms(5) by (simp add: processCarQ_arrived)
    then show ?thesis using assms(1,2) by simp
  next
    case False
    show ?thesis
    proof
      assume "arrived c'"
      from processCarQ_arrival[OF assms(5) False this] show "scored bonus horizon c'"
        using assms(3,4) by (simp add: scored_def)
    qed
  qed
qed

lemma scoredA_preserved:
  assumes "\<forall>c \<in> set cs. arrived c \<longrightarrow> scored bonus horizon c" "i < length cs"
    "0 \<le> t" "t \<le> horizon"
    "processCarA byId bonus (horizon - t) t i (m, sts, cs ! i) = Inr (m', sts', c')"
  shows "\<forall>c \<in> set (cs[i := c']). arrived c \<longrightarrow> scored bonus horizon c"
proof (rule scored_update[OF assms(1)])
  show "arrived c' \<longrightarrow> scored bonus horizon c'"
  proof (cases "arrived (cs ! i)")
    case True
    then have "c' = cs ! i" using assms(5) by (simp add: processCarA_arrived)
    then show ?thesis using assms(1,2) by simp
  next
    case False
    show ?thesis
    proof
      assume "arrived c'"
      from processCarA_arrival[OF assms(5) False this] show "scored bonus horizon c'"
        using assms(3,4) by (simp add: scored_def)
    qed
  qed
qed

lemma simulationRecordQ_call:
  assumes "(t, i, pre, post) \<in> set (simulationRecordQ d)"
  shows "0 \<le> t \<and> t \<le> simulationDuration (simulation d)
         \<and> processCarQ (bonusPoint (simulation d)) (simulationDuration (simulation d) - t) t i pre
             = Inr post"
proof -
  from recordWith_entry[where K = "\<lambda>sts cs. True", OF _ _
      assms[unfolded simulationRecordQ_def recordQ_With]]
  show ?thesis by (auto simp: bodyQ_def split: if_splits)
qed

lemma simulationRecordA_call:
  assumes "(t, i, pre, post) \<in> set (simulationRecordA byId d)"
  shows "0 \<le> t \<and> t \<le> simulationDuration (simulation d)
         \<and> processCarA byId (bonusPoint (simulation d)) (simulationDuration (simulation d) - t) t i
             pre = Inr post"
proof -
  from recordWith_entry[where K = "\<lambda>sts cs. True", OF _ _
      assms[unfolded simulationRecordA_def recordA_With]]
  show ?thesis by (auto simp: bodyA_def split: if_splits)
qed

lemma simulateQ_scored:
  assumes D: "0 \<le> simulationDuration (simulation d)"
    and run: "simulateQ d = Some (Inr d')"
    and init: "\<forall>c \<in> set (cars d). \<not> arrived c"
  shows "\<forall>c \<in> set (cars d'). arrived c \<longrightarrow>
           scored (bonusPoint (simulation d)) (simulationDuration (simulation d)) c"
proof -
  let ?D = "simulationDuration (simulation d)"
  let ?K = "\<lambda>sts cs. \<forall>c \<in> set cs. arrived c \<longrightarrow> scored (bonusPoint (simulation d)) ?D c"
  from run have r: "runWith bodyQ ascendingQ (nat (?D + 1)) ?D 0 d = Inr d'"
    using simulateQ_run[OF D] by (simp add: runQ_With)
  have "?K (streets d') (cars d') \<and> simulation d' = simulation d"
  proof (rule runWith_invariant[where K = ?K, OF _ _ r])
    show "?K (streets d) (cars d)" using init by simp
  next
    fix t i m sts cs m' sts' c'
    assume h: "?K sts cs" "i < length cs" "0 \<le> t" "t < 0 + int (nat (?D + 1))"
      "bodyQ (simulation d) (?D - t) t i (m, sts, cs ! i) = Inr (m', sts', c')"
    then have "t \<le> ?D" using D by simp
    then show "?K sts' (cs[i := c'])"
      using scoredQ_preserved[OF h(1,2,3) _ h(5)[unfolded bodyQ_def]] by simp
  qed
  then show ?thesis by simp
qed

lemma simulateA_scored:
  assumes D: "0 \<le> simulationDuration (simulation d)"
    and run: "simulateA byId d = Some (Inr d')"
    and init: "\<forall>c \<in> set (cars d). \<not> arrived c"
  shows "\<forall>c \<in> set (cars d'). arrived c \<longrightarrow>
           scored (bonusPoint (simulation d)) (simulationDuration (simulation d)) c"
proof -
  let ?D = "simulationDuration (simulation d)"
  let ?K = "\<lambda>sts cs. \<forall>c \<in> set cs. arrived c \<longrightarrow> scored (bonusPoint (simulation d)) ?D c"
  from run have r: "runWith (bodyA byId) ascendingA (nat (?D + 1)) ?D 0 d = Inr d'"
    using simulateA_run[OF D] by (simp add: runA_With)
  have "?K (streets d') (cars d') \<and> simulation d' = simulation d"
  proof (rule runWith_invariant[where K = ?K, OF _ _ r])
    show "?K (streets d) (cars d)" using init by simp
  next
    fix t i m sts cs m' sts' c'
    assume h: "?K sts cs" "i < length cs" "0 \<le> t" "t < 0 + int (nat (?D + 1))"
      "bodyA byId (simulation d) (?D - t) t i (m, sts, cs ! i) = Inr (m', sts', c')"
    then have "t \<le> ?D" using D by simp
    then show "?K sts' (cs[i := c'])"
      using scoredA_preserved[OF h(1,2,3) _ h(5)[unfolded bodyA_def]] by simp
  qed
  then show ?thesis by simp
qed

text \<open>
  Claim C1. A car that arrives does so in one call of the loop body: the call at tick
  \<open>t\<close> finds it not arrived and leaves it arrived. That call sets its commute time
  to \<open>t\<close>, which lies in \<open>[0, duration]\<close>, and its score to
  \<open>bonus + (duration - commuteTime)\<close>; and when the run returns, every arrived car
  of a dataset whose cars had not arrived at the start carries such values. This
  holds for both sources, for a duration that is not negative and where the duration,
  the bonus and their sum are safe integers, so that the sums of the source are the
  sums of integers.
\<close>

theorem arrival_score_and_commute_time:
  assumes "0 \<le> simulationDuration (simulation dQ)" and "0 \<le> simulationDuration (simulation dA)"
    and "exactScores (simulation dQ)" and "exactScores (simulation dA)"
  shows "(\<forall>(t, i, pre, post) \<in> set (simulationRecordQ dQ).
            \<not> arrived (carOf pre) \<and> arrived (carOf post) \<longrightarrow>
              commuteTime (carOf post) = t \<and> 0 \<le> t \<and> t \<le> simulationDuration (simulation dQ)
              \<and> score (carOf post) =
                  bonusPoint (simulation dQ)
                  + (simulationDuration (simulation dQ) - commuteTime (carOf post)))
       \<and> (\<forall>d'. simulateQ dQ = Some (Inr d') \<and> (\<forall>c \<in> set (cars dQ). \<not> arrived c) \<longrightarrow>
            (\<forall>c \<in> set (cars d'). arrived c \<longrightarrow>
               scored (bonusPoint (simulation dQ)) (simulationDuration (simulation dQ)) c))
       \<and> (\<forall>(t, i, pre, post) \<in> set (simulationRecordA byId dA).
            \<not> arrived (carOf pre) \<and> arrived (carOf post) \<longrightarrow>
              commuteTime (carOf post) = t \<and> 0 \<le> t \<and> t \<le> simulationDuration (simulation dA)
              \<and> score (carOf post) =
                  bonusPoint (simulation dA)
                  + (simulationDuration (simulation dA) - commuteTime (carOf post)))
       \<and> (\<forall>d'. simulateA byId dA = Some (Inr d') \<and> (\<forall>c \<in> set (cars dA). \<not> arrived c) \<longrightarrow>
            (\<forall>c \<in> set (cars d'). arrived c \<longrightarrow>
               scored (bonusPoint (simulation dA)) (simulationDuration (simulation dA)) c))"
proof (intro conjI)
  show "\<forall>(t, i, pre, post) \<in> set (simulationRecordQ dQ).
            \<not> arrived (carOf pre) \<and> arrived (carOf post) \<longrightarrow>
              commuteTime (carOf post) = t \<and> 0 \<le> t \<and> t \<le> simulationDuration (simulation dQ)
              \<and> score (carOf post) =
                  bonusPoint (simulation dQ)
                  + (simulationDuration (simulation dQ) - commuteTime (carOf post))"
  proof (clarify)
    fix t i m sts c m' sts' c'
    assume e: "(t, i, (m, sts, c), (m', sts', c')) \<in> set (simulationRecordQ dQ)"
      and a: "\<not> arrived (carOf (m, sts, c))" "arrived (carOf (m', sts', c'))"
    from a have a': "\<not> arrived c" "arrived c'" by simp_all
    from simulationRecordQ_call[OF e] have b: "0 \<le> t" "t \<le> simulationDuration (simulation dQ)"
      and call: "processCarQ (bonusPoint (simulation dQ)) (simulationDuration (simulation dQ) - t)
                   t i (m, sts, c) = Inr (m', sts', c')"
      by simp_all
    from processCarQ_arrival[OF call a'] b
    show "commuteTime (carOf (m', sts', c')) = t \<and> 0 \<le> t \<and> t \<le> simulationDuration (simulation dQ)
              \<and> score (carOf (m', sts', c')) =
                  bonusPoint (simulation dQ)
                  + (simulationDuration (simulation dQ) - commuteTime (carOf (m', sts', c')))"
      by simp
  qed
next
  show "\<forall>d'. simulateQ dQ = Some (Inr d') \<and> (\<forall>c \<in> set (cars dQ). \<not> arrived c) \<longrightarrow>
            (\<forall>c \<in> set (cars d'). arrived c \<longrightarrow>
               scored (bonusPoint (simulation dQ)) (simulationDuration (simulation dQ)) c)"
    using simulateQ_scored[OF assms(1)] by blast
next
  show "\<forall>(t, i, pre, post) \<in> set (simulationRecordA byId dA).
            \<not> arrived (carOf pre) \<and> arrived (carOf post) \<longrightarrow>
              commuteTime (carOf post) = t \<and> 0 \<le> t \<and> t \<le> simulationDuration (simulation dA)
              \<and> score (carOf post) =
                  bonusPoint (simulation dA)
                  + (simulationDuration (simulation dA) - commuteTime (carOf post))"
  proof (clarify)
    fix t i m sts c m' sts' c'
    assume e: "(t, i, (m, sts, c), (m', sts', c')) \<in> set (simulationRecordA byId dA)"
      and a: "\<not> arrived (carOf (m, sts, c))" "arrived (carOf (m', sts', c'))"
    from a have a': "\<not> arrived c" "arrived c'" by simp_all
    from simulationRecordA_call[OF e] have b: "0 \<le> t" "t \<le> simulationDuration (simulation dA)"
      and call: "processCarA byId (bonusPoint (simulation dA))
                   (simulationDuration (simulation dA) - t) t i (m, sts, c) = Inr (m', sts', c')"
      by simp_all
    from processCarA_arrival[OF call a'] b
    show "commuteTime (carOf (m', sts', c')) = t \<and> 0 \<le> t \<and> t \<le> simulationDuration (simulation dA)
              \<and> score (carOf (m', sts', c')) =
                  bonusPoint (simulation dA)
                  + (simulationDuration (simulation dA) - commuteTime (carOf (m', sts', c')))"
      by simp
  qed
next
  show "\<forall>d'. simulateA byId dA = Some (Inr d') \<and> (\<forall>c \<in> set (cars dA). \<not> arrived c) \<longrightarrow>
            (\<forall>c \<in> set (cars d'). arrived c \<longrightarrow>
               scored (bonusPoint (simulation dA)) (simulationDuration (simulation dA)) c)"
    using simulateA_scored[OF assms(2)] by blast
qed


lemmas runQ_defs = runQ_def ascendingQ_def stepQ_defs numeral_eq_Suc inheritedName_def
  inheritedNames_def

lemmas runA_defs = runA_def ascendingA_def stepA_defs numeral_eq_Suc inheritedName_def
  inheritedNames_def

lemma exampleQ_value:
  "exampleQ =
     \<lparr>simulation = \<lparr>simulationDuration = 3, numIntersections = 3, numStreets = 3, numCars = 3,
                    bonusPoint = 1000\<rparr>,
      streets =
        [''a'' \<mapsto> \<lparr>start = 0, end' = 1, duration = 1, lastQueuingNumber = - 1,
                   nextQueuingNumber = 3, schedule = Some \<lparr>gte = 0, lte = 0\<rparr>,
                   scheduledTimeWindow = Some 1\<rparr>,
         ''b'' \<mapsto> \<lparr>start = 1, end' = 2, duration = 1, lastQueuingNumber = - 1,
                   nextQueuingNumber = 0, schedule = Some \<lparr>gte = 0, lte = 0\<rparr>,
                   scheduledTimeWindow = Some 1\<rparr>,
         ''c'' \<mapsto> \<lparr>start = 2, end' = 0, duration = 1, lastQueuingNumber = - 1,
                   nextQueuingNumber = 0, schedule = None, scheduledTimeWindow = None\<rparr>],
      cars =
        [\<lparr>carNumStreets = 3, streetNames = [''a'', ''b'', ''c''], currentStreetIdx = 0,
          remainingTimeOnStreet = 0, arrived = False, score = 0, commuteTime = 0,
          currentStreetName = ''a'', queuingNumber = 0\<rparr>,
         \<lparr>carNumStreets = 2, streetNames = [''a'', ''b''], currentStreetIdx = 0,
          remainingTimeOnStreet = 0, arrived = False, score = 0, commuteTime = 0,
          currentStreetName = ''a'', queuingNumber = 1\<rparr>,
         \<lparr>carNumStreets = 3, streetNames = [''a'', ''b'', ''c''], currentStreetIdx = 0,
          remainingTimeOnStreet = 0, arrived = False, score = 0, commuteTime = 0,
          currentStreetName = ''a'', queuingNumber = 2\<rparr>]\<rparr>"
  by (simp add: exampleQ_defs fun_eq_iff)

lemma exampleA_value:
  "exampleA =
     \<lparr>simulation = \<lparr>simulationDuration = 3, numIntersections = 3, numStreets = 3, numCars = 3,
                    bonusPoint = 1000\<rparr>,
      streets =
        [''a'' \<mapsto> \<lparr>start = 0, end' = 1, duration = 1, carIdQueue = [0, 1, 2]\<rparr>,
         ''b'' \<mapsto> \<lparr>start = 1, end' = 2, duration = 1, carIdQueue = []\<rparr>,
         ''c'' \<mapsto> \<lparr>start = 2, end' = 0, duration = 1, carIdQueue = []\<rparr>],
      cars =
        [\<lparr>carNumStreets = 3, streetNames = [''a'', ''b'', ''c''], currentStreetIdx = 0,
          remainingTimeOnStreet = 0, arrived = False, score = 0, commuteTime = 0\<rparr>,
         \<lparr>carNumStreets = 2, streetNames = [''a'', ''b''], currentStreetIdx = 0,
          remainingTimeOnStreet = 0, arrived = False, score = 0, commuteTime = 0\<rparr>,
         \<lparr>carNumStreets = 3, streetNames = [''a'', ''b'', ''c''], currentStreetIdx = 0,
          remainingTimeOnStreet = 0, arrived = False, score = 0, commuteTime = 0\<rparr>]\<rparr>"
  by (simp add: exampleA_def exampleInput_def parse_defs parseA_defs fun_eq_iff)

lemma exampleSchedules_value:
  "exampleSchedules =
     [''1'' \<mapsto> [''a'' \<mapsto> Window 0 0, ''scheduledTimeWindow'' \<mapsto> CycleLength 1],
      ''2'' \<mapsto> [''b'' \<mapsto> Window 0 0, ''scheduledTimeWindow'' \<mapsto> CycleLength 1]]"
  by (simp add: exampleSchedules_def exampleA_value exampleSubmission_def parse_defs parseA_defs
        fun_eq_iff)

lemma exampleQ_simulation:
  "simulation exampleQ =
     \<lparr>simulationDuration = 3, numIntersections = 3, numStreets = 3, numCars = 3,
      bonusPoint = 1000\<rparr>"
  by (simp add: exampleQ_value)

lemma exampleA_simulation:
  "simulation exampleA =
     \<lparr>simulationDuration = 3, numIntersections = 3, numStreets = 3, numCars = 3,
      bonusPoint = 1000\<rparr>"
  by (simp add: exampleA_value)

theorem arrival_score_and_commute_time_witness:
  "0 \<le> simulationDuration (simulation exampleQ) \<and> 0 \<le> simulationDuration (simulation exampleA)
   \<and> exactScores (simulation exampleQ) \<and> exactScores (simulation exampleA)
   \<and> (\<exists>pre post. (2, 0, pre, post) \<in> set (simulationRecordQ exampleQ)
         \<and> \<not> arrived (carOf pre) \<and> arrived (carOf post)
         \<and> commuteTime (carOf post) = 2 \<and> score (carOf post) = 1000 + (3 - 2))
   \<and> (\<exists>d'. simulateQ exampleQ = Some (Inr d') \<and> arrived (cars d' ! 1)
         \<and> scored 1000 3 (cars d' ! 1))
   \<and> (\<exists>pre post. (2, 0, pre, post) \<in> set (simulationRecordA exampleSchedules exampleA)
         \<and> \<not> arrived (carOf pre) \<and> arrived (carOf post)
         \<and> commuteTime (carOf post) = 2 \<and> score (carOf post) = 1000 + (3 - 2))
   \<and> (\<exists>d'. simulateA exampleSchedules exampleA = Some (Inr d') \<and> arrived (cars d' ! 1)
         \<and> scored 1000 3 (cars d' ! 1))"
proof -
  have hQ: "0 \<le> simulationDuration (simulation exampleQ)" by (simp add: exampleQ_simulation)
  have hA: "0 \<le> simulationDuration (simulation exampleA)" by (simp add: exampleA_simulation)
  have xQ: "exactScores (simulation exampleQ)"
    by (simp add: exactScores_def safeInteger_def exampleQ_simulation)
  have xA: "exactScores (simulation exampleA)"
    by (simp add: exactScores_def safeInteger_def exampleA_simulation)
  note inst = arrival_score_and_commute_time[OF hQ hA xQ xA, of exampleSchedules]
  have "6 < length (simulationRecordQ exampleQ)
        \<and> (case simulationRecordQ exampleQ ! 6 of
             (t, i, pre, post) \<Rightarrow> t = 2 \<and> i = 0 \<and> \<not> arrived (carOf pre) \<and> arrived (carOf post))"
    by (simp add: recordQ_defs exampleQ_value nthName_def Let_def upt_rec)
  then obtain pre post where eQ: "(2, 0, pre, post) \<in> set (simulationRecordQ exampleQ)"
      "\<not> arrived (carOf pre)" "arrived (carOf post)"
    using nth_mem[of 6 "simulationRecordQ exampleQ"]
    by (cases "simulationRecordQ exampleQ ! 6") auto
  have rQ: "commuteTime (carOf post) = 2 \<and> score (carOf post) = 1000 + (3 - 2)"
    using inst eQ by (auto simp: exampleQ_simulation)
  have "6 < length (simulationRecordA exampleSchedules exampleA)
        \<and> (case simulationRecordA exampleSchedules exampleA ! 6 of
             (t, i, pre, post) \<Rightarrow> t = 2 \<and> i = 0 \<and> \<not> arrived (carOf pre) \<and> arrived (carOf post))"
    by (simp add: recordA_defs exampleA_value exampleSchedules_value nthName_def Let_def upt_rec)
  then obtain preA postA where
      eA: "(2, 0, preA, postA) \<in> set (simulationRecordA exampleSchedules exampleA)"
      "\<not> arrived (carOf preA)" "arrived (carOf postA)"
    using nth_mem[of 6 "simulationRecordA exampleSchedules exampleA"]
    by (cases "simulationRecordA exampleSchedules exampleA ! 6") auto
  have rA: "commuteTime (carOf postA) = 2 \<and> score (carOf postA) = 1000 + (3 - 2)"
    using inst eA by (auto simp: exampleA_simulation)
  have "\<exists>d'. runQ ascendingQ 4 3 0 exampleQ = Inr d' \<and> arrived (cars d' ! 1)
          \<and> 1 < length (cars d') \<and> (\<forall>c \<in> set (cars exampleQ). \<not> arrived c)"
    by (simp add: runQ_defs exampleQ_value nthName_def Let_def upt_rec)
  then obtain dQ' where fQ: "simulateQ exampleQ = Some (Inr dQ')" "arrived (cars dQ' ! 1)"
      "1 < length (cars dQ')" "\<forall>c \<in> set (cars exampleQ). \<not> arrived c"
    using simulateQ_run[OF hQ] by (auto simp: exampleQ_simulation)
  have sQ: "scored 1000 3 (cars dQ' ! 1)"
    using inst fQ nth_mem[OF fQ(3)] by (auto simp: exampleQ_simulation)
  have "\<exists>d'. runA exampleSchedules ascendingA 4 3 0 exampleA = Inr d' \<and> arrived (cars d' ! 1)
          \<and> 1 < length (cars d') \<and> (\<forall>c \<in> set (cars exampleA). \<not> arrived c)"
    by (simp add: runA_defs exampleA_value exampleSchedules_value nthName_def Let_def upt_rec)
  then obtain dA' where fA: "simulateA exampleSchedules exampleA = Some (Inr dA')"
      "arrived (cars dA' ! 1)" "1 < length (cars dA')"
      "\<forall>c \<in> set (cars exampleA). \<not> arrived c"
    using simulateA_run[OF hA] by (auto simp: exampleA_simulation)
  have sA: "scored 1000 3 (cars dA' ! 1)"
    using inst fA nth_mem[OF fA(3)] by (auto simp: exampleA_simulation)
  show ?thesis using hQ hA xQ xA eQ rQ eA rA fQ sQ fA sA by blast
qed

section \<open>One call of the loop body\<close>

lemma processCarQ_crossing:
  assumes "processCarQ bonus r t i (m, sts, c) = Inr (m', sts', c')"
    "currentStreetIdx c' \<noteq> currentStreetIdx c"
  shows "\<not> m (currentStreetName c) \<and> m' = m(currentStreetName c := True) \<and> r \<noteq> 0
         \<and> \<not> arrived c \<and> \<not> arrived c'
         \<and> currentStreetIdx c' = currentStreetIdx c + 1
         \<and> (\<exists>s. sts (currentStreetName c) = Some s \<and> isTrafficLightGreenQ t s)"
  using assms
  by (auto simp: processCarQ_def enqueueQ_def drive_def arrive_def crossQ_def Let_def
           split: if_splits option.splits sum.splits)

lemma processCarQ_stay:
  assumes "processCarQ bonus r t i (m, sts, c) = Inr (m', sts', c')"
    "currentStreetIdx c' = currentStreetIdx c"
  shows "m' = m"
  using assms
  by (auto simp: processCarQ_def enqueueQ_def drive_def arrive_def crossQ_def Let_def
           split: if_splits option.splits sum.splits)

lemma processCarQ_fixed:
  assumes "processCarQ bonus r t i (m, sts, c) = Inr (m', sts', c')"
  shows "map_option fixedQ (sts' name) = map_option fixedQ (sts name)"
  using assms
  by (auto simp: processCarQ_def enqueueQ_def drive_def arrive_def crossQ_def Let_def fixedQ_def
           street.truncate_def
           split: if_splits option.splits sum.splits)

lemma processCarA_crossing:
  assumes "processCarA byId bonus r t i (m, sts, c) = Inr (m', sts', c')"
    "currentStreetIdx c' \<noteq> currentStreetIdx c"
  shows "\<not> m (nthName (streetNames c) (currentStreetIdx c))
         \<and> m' = m(nthName (streetNames c) (currentStreetIdx c) := True) \<and> r \<noteq> 0
         \<and> \<not> arrived c \<and> \<not> arrived c'
         \<and> currentStreetIdx c' = currentStreetIdx c + 1
         \<and> (\<exists>s. sts (nthName (streetNames c) (currentStreetIdx c)) = Some s
                \<and> isTrafficLightGreenA byId t (end' s)
                     (nthName (streetNames c) (currentStreetIdx c)) = Inr True)"
  using assms
  by (auto simp: processCarA_def enqueueA_def drive_def arrive_def crossA_def Let_def
           split: if_splits option.splits sum.splits list.splits)

lemma processCarA_stay:
  assumes "processCarA byId bonus r t i (m, sts, c) = Inr (m', sts', c')"
    "currentStreetIdx c' = currentStreetIdx c"
  shows "m' = m"
  using assms
  by (auto simp: processCarA_def enqueueA_def drive_def arrive_def crossA_def Let_def
           split: if_splits option.splits sum.splits list.splits)

lemma processCarA_fixed:
  assumes "processCarA byId bonus r t i (m, sts, c) = Inr (m', sts', c')"
  shows "map_option fixedA (sts' name) = map_option fixedA (sts name)"
  using assms
  by (auto simp: processCarA_def enqueueA_def drive_def arrive_def crossA_def Let_def fixedA_def
           street.truncate_def
           split: if_splits option.splits sum.splits list.splits)

lemma isTrafficLightGreenQ_fixed:
  "fixedQ s = fixedQ s' \<Longrightarrow> isTrafficLightGreenQ t s = isTrafficLightGreenQ t s'"
  by (simp add: fixedQ_def isTrafficLightGreenQ_def split: option.splits)

lemma isTrafficLightGreenQ_window:
  assumes "isTrafficLightGreenQ t s"
  shows "\<exists>w cycle timePart. schedule s = Some w \<and> scheduledTimeWindow s = Some cycle
           \<and> jsRemainder t cycle = Some timePart \<and> gte w \<le> timePart \<and> timePart \<le> lte w"
  using assms by (auto simp: isTrafficLightGreenQ_def split: option.splits)

lemma isTrafficLightGreenA_window:
  assumes "isTrafficLightGreenA byId t e name = Inr True"
  shows "\<exists>obj g l cycle timePart. byId (numberKey e) = Some obj \<and> obj name = Some (Window g l)
           \<and> obj ''scheduledTimeWindow'' = Some (CycleLength cycle)
           \<and> jsRemainder t cycle = Some timePart \<and> g \<le> timePart \<and> timePart \<le> l"
  using assms
  by (auto simp: isTrafficLightGreenA_def scheduledGreen_def
        split: option.splits scheduleProperty.splits if_splits)

section \<open>Crossings happen under a green light\<close>

lemma simulationRecordQ_fixed:
  assumes "(t, i, pre, post) \<in> set (simulationRecordQ d)"
  shows "map_option fixedQ (streetsOf pre name) = map_option fixedQ (streets d name)"
proof -
  let ?K = "\<lambda>sts (cs :: carQ list). \<forall>name. map_option fixedQ (sts name) = map_option fixedQ (streets d name)"
  have "\<exists>cs. ?K (streetsOf pre) cs \<and> i < length cs \<and> carOf pre = cs ! i
           \<and> 0 \<le> t \<and> t < 0 + int (nat (simulationDuration (simulation d) + 1))
           \<and> bodyQ (simulation d) (simulationDuration (simulation d) - t) t i pre = Inr post"
  proof (rule recordWith_entry[where K = ?K, OF _ _ assms[unfolded simulationRecordQ_def recordQ_With]])
    show "?K (streets d) (cars d)" by simp
  next
    fix t i m sts cs m' sts' c'
    assume "?K sts cs"
      "bodyQ (simulation d) (simulationDuration (simulation d) - t) t i (m, sts, cs ! i)
         = Inr (m', sts', c')"
    then show "?K sts' (cs[i := c'])" using processCarQ_fixed by (simp add: bodyQ_def)
  qed
  then show ?thesis by blast
qed

lemma simulationRecordA_fixed:
  assumes "(t, i, pre, post) \<in> set (simulationRecordA byId d)"
  shows "map_option fixedA (streetsOf pre name) = map_option fixedA (streets d name)"
proof -
  let ?K = "\<lambda>sts (cs :: car list). \<forall>name. map_option fixedA (sts name) = map_option fixedA (streets d name)"
  have "\<exists>cs. ?K (streetsOf pre) cs \<and> i < length cs \<and> carOf pre = cs ! i
           \<and> 0 \<le> t \<and> t < 0 + int (nat (simulationDuration (simulation d) + 1))
           \<and> bodyA byId (simulation d) (simulationDuration (simulation d) - t) t i pre = Inr post"
  proof (rule recordWith_entry[where K = ?K, OF _ _ assms[unfolded simulationRecordA_def recordA_With]])
    show "?K (streets d) (cars d)" by simp
  next
    fix t i m sts cs m' sts' c'
    assume "?K sts cs"
      "bodyA byId (simulation d) (simulationDuration (simulation d) - t) t i (m, sts, cs ! i)
         = Inr (m', sts', c')"
    then show "?K sts' (cs[i := c'])" using processCarA_fixed by (simp add: bodyA_def)
  qed
  then show ?thesis by blast
qed

lemma crossingQ_green:
  assumes e: "(t, i, pre, post) \<in> set (simulationRecordQ d)" and x: "crossing pre post"
  shows "\<exists>s w cycle timePart. streets d (currentStreetName (carOf pre)) = Some s
           \<and> schedule s = Some w \<and> scheduledTimeWindow s = Some cycle
           \<and> jsRemainder t cycle = Some timePart \<and> gte w \<le> timePart \<and> timePart \<le> lte w"
proof -
  obtain m sts c where pre: "pre = (m, sts, c)" by (cases pre)
  obtain m' sts' c' where post: "post = (m', sts', c')" by (cases post)
  from simulationRecordQ_call[OF e] pre post
  have call: "processCarQ (bonusPoint (simulation d)) (simulationDuration (simulation d) - t) t i
                (m, sts, c) = Inr (m', sts', c')" by simp
  from x pre post have "currentStreetIdx c' \<noteq> currentStreetIdx c" by (simp add: crossing_def)
  from processCarQ_crossing[OF call this] obtain s1 where
    s1: "sts (currentStreetName c) = Some s1" "isTrafficLightGreenQ t s1" by blast
  from simulationRecordQ_fixed[OF e, of "currentStreetName c"] s1(1) pre
  obtain s where s: "streets d (currentStreetName c) = Some s" "fixedQ s = fixedQ s1"
    by (cases "streets d (currentStreetName c)") auto
  from isTrafficLightGreenQ_fixed[OF s(2)] s1(2) have "isTrafficLightGreenQ t s" by simp
  from isTrafficLightGreenQ_window[OF this] s(1) pre show ?thesis by auto
qed

lemma crossingA_green:
  assumes e: "(t, i, pre, post) \<in> set (simulationRecordA byId d)" and x: "crossing pre post"
  shows "\<exists>s obj g l cycle timePart. streets d (streetOf pre) = Some s
           \<and> byId (numberKey (end' s)) = Some obj \<and> obj (streetOf pre) = Some (Window g l)
           \<and> obj ''scheduledTimeWindow'' = Some (CycleLength cycle)
           \<and> jsRemainder t cycle = Some timePart \<and> g \<le> timePart \<and> timePart \<le> l"
proof -
  obtain m sts c where pre: "pre = (m, sts, c)" by (cases pre)
  obtain m' sts' c' where post: "post = (m', sts', c')" by (cases post)
  let ?name = "nthName (streetNames c) (currentStreetIdx c)"
  from simulationRecordA_call[OF e] pre post
  have call: "processCarA byId (bonusPoint (simulation d)) (simulationDuration (simulation d) - t)
                t i (m, sts, c) = Inr (m', sts', c')" by simp
  from x pre post have "currentStreetIdx c' \<noteq> currentStreetIdx c" by (simp add: crossing_def)
  from processCarA_crossing[OF call this] obtain s1 where
    s1: "sts ?name = Some s1" "isTrafficLightGreenA byId t (end' s1) ?name = Inr True" by blast
  from simulationRecordA_fixed[OF e, of ?name] s1(1) pre
  obtain s where s: "streets d ?name = Some s" "fixedA s = fixedA s1"
    by (cases "streets d ?name") auto
  from s(2) have "end' s = end' s1" by (simp add: fixedA_def street.truncate_def)
  with s1(2) have "isTrafficLightGreenA byId t (end' s) ?name = Inr True" by simp
  from isTrafficLightGreenA_window[OF this] s(1) pre show ?thesis
    by (auto simp: streetOf_def routeStreet_def)
qed


text \<open>
  Claim C2. In either source a car crosses a street at tick \<open>t\<close> only if the street
  has a compiled green window and \<open>t\<close> modulo the cycle length (the remainder operator
  of the source) lies within the bounds of the window; a street without a schedule
  entry is never crossed. The windows are those of the dataset the run started from
  (part_001) or of the table of schedules (index.js).
\<close>

theorem crossings_only_under_green:
  "(\<forall>(t, i, pre, post) \<in> set (simulationRecordQ dQ).
      crossing pre post \<longrightarrow>
        (\<exists>s w cycle timePart. streets dQ (currentStreetName (carOf pre)) = Some s
           \<and> schedule s = Some w \<and> scheduledTimeWindow s = Some cycle
           \<and> jsRemainder t cycle = Some timePart \<and> gte w \<le> timePart \<and> timePart \<le> lte w))
   \<and> (\<forall>(t, i, pre, post) \<in> set (simulationRecordQ dQ).
        \<forall>s. streets dQ (currentStreetName (carOf pre)) = Some s \<and> schedule s = None
          \<longrightarrow> \<not> crossing pre post)
   \<and> (\<forall>(t, i, pre, post) \<in> set (simulationRecordA byId dA).
        crossing pre post \<longrightarrow>
          (\<exists>s obj g l cycle timePart. streets dA (streetOf pre) = Some s
             \<and> byId (numberKey (end' s)) = Some obj \<and> obj (streetOf pre) = Some (Window g l)
             \<and> obj ''scheduledTimeWindow'' = Some (CycleLength cycle)
             \<and> jsRemainder t cycle = Some timePart \<and> g \<le> timePart \<and> timePart \<le> l))
   \<and> (\<forall>(t, i, pre, post) \<in> set (simulationRecordA byId dA).
        \<forall>s. streets dA (streetOf pre) = Some s
             \<and> (\<forall>obj. byId (numberKey (end' s)) = Some obj \<longrightarrow> obj (streetOf pre) = None)
          \<longrightarrow> \<not> crossing pre post)"
proof (intro conjI)
  show "\<forall>(t, i, pre, post) \<in> set (simulationRecordQ dQ).
      crossing pre post \<longrightarrow>
        (\<exists>s w cycle timePart. streets dQ (currentStreetName (carOf pre)) = Some s
           \<and> schedule s = Some w \<and> scheduledTimeWindow s = Some cycle
           \<and> jsRemainder t cycle = Some timePart \<and> gte w \<le> timePart \<and> timePart \<le> lte w)"
    using crossingQ_green by blast
next
  show "\<forall>(t, i, pre, post) \<in> set (simulationRecordQ dQ).
        \<forall>s. streets dQ (currentStreetName (carOf pre)) = Some s \<and> schedule s = None
          \<longrightarrow> \<not> crossing pre post"
  proof (clarify)
    fix t i pre post s
    assume e: "(t, i, pre, post) \<in> set (simulationRecordQ dQ)" and x: "crossing pre post"
      and s: "streets dQ (currentStreetName (carOf pre)) = Some s" "schedule s = None"
    from crossingQ_green[OF e x] s show False by auto
  qed
next
  show "\<forall>(t, i, pre, post) \<in> set (simulationRecordA byId dA).
        crossing pre post \<longrightarrow>
          (\<exists>s obj g l cycle timePart. streets dA (streetOf pre) = Some s
             \<and> byId (numberKey (end' s)) = Some obj \<and> obj (streetOf pre) = Some (Window g l)
             \<and> obj ''scheduledTimeWindow'' = Some (CycleLength cycle)
             \<and> jsRemainder t cycle = Some timePart \<and> g \<le> timePart \<and> timePart \<le> l)"
    using crossingA_green by blast
next
  show "\<forall>(t, i, pre, post) \<in> set (simulationRecordA byId dA).
        \<forall>s. streets dA (streetOf pre) = Some s
             \<and> (\<forall>obj. byId (numberKey (end' s)) = Some obj \<longrightarrow> obj (streetOf pre) = None)
          \<longrightarrow> \<not> crossing pre post"
  proof (clarify)
    fix t i pre post s
    assume e: "(t, i, pre, post) \<in> set (simulationRecordA byId dA)" and x: "crossing pre post"
      and s: "streets dA (streetOf pre) = Some s"
        "\<forall>obj. byId (numberKey (end' s)) = Some obj \<longrightarrow> obj (streetOf pre) = None"
    from crossingA_green[OF e x] s show False by auto
  qed
qed

lemma entryAt:
  assumes "k < length R" "case R ! k of (t, i, pre, post) \<Rightarrow> P t i pre post"
  shows "\<exists>t i pre post. (t, i, pre, post) \<in> set R \<and> P t i pre post"
proof -
  obtain t i pre post where e: "R ! k = (t, i, pre, post)" by (cases "R ! k") auto
  then have "(t, i, pre, post) \<in> set R" using nth_mem[OF assms(1)] by simp
  moreover have "P t i pre post" using assms(2) e by simp
  ultimately show ?thesis by blast
qed

theorem crossings_only_under_green_witness:
  "(\<exists>pre post. (0, 0, pre, post) \<in> set (simulationRecordQ exampleQ) \<and> crossing pre post
      \<and> currentStreetName (carOf pre) = ''a''
      \<and> (\<exists>s w cycle timePart. streets exampleQ ''a'' = Some s
           \<and> schedule s = Some w \<and> scheduledTimeWindow s = Some cycle
           \<and> jsRemainder 0 cycle = Some timePart \<and> gte w \<le> timePart \<and> timePart \<le> lte w))
   \<and> (\<exists>pre post s. (2, 0, pre, post) \<in> set (simulationRecordQ exampleQ)
        \<and> streets exampleQ (currentStreetName (carOf pre)) = Some s \<and> schedule s = None
        \<and> \<not> crossing pre post)
   \<and> (\<exists>pre post. (0, 0, pre, post) \<in> set (simulationRecordA exampleSchedules exampleA)
        \<and> crossing pre post \<and> streetOf pre = ''a''
        \<and> (\<exists>s obj g l cycle timePart. streets exampleA ''a'' = Some s
             \<and> exampleSchedules (numberKey (end' s)) = Some obj \<and> obj ''a'' = Some (Window g l)
             \<and> obj ''scheduledTimeWindow'' = Some (CycleLength cycle)
             \<and> jsRemainder 0 cycle = Some timePart \<and> g \<le> timePart \<and> timePart \<le> l))
   \<and> (\<exists>pre post s. (2, 0, pre, post) \<in> set (simulationRecordA exampleSchedules exampleA)
        \<and> streets exampleA (streetOf pre) = Some s
        \<and> (\<forall>obj. exampleSchedules (numberKey (end' s)) = Some obj \<longrightarrow> obj (streetOf pre) = None)
        \<and> \<not> crossing pre post)"
proof -
  note inst = crossings_only_under_green[of exampleQ exampleSchedules exampleA]
  have vQ: "6 < length (simulationRecordQ exampleQ)
        \<and> (case simulationRecordQ exampleQ ! 0 of
             (t, i, pre, post) \<Rightarrow> t = 0 \<and> i = 0 \<and> crossing pre post
                \<and> currentStreetName (carOf pre) = ''a'')
        \<and> (case simulationRecordQ exampleQ ! 6 of
             (t, i, pre, post) \<Rightarrow> t = 2 \<and> i = 0 \<and> currentStreetName (carOf pre) = ''c'')"
    by (simp add: recordQ_defs exampleQ_value nthName_def Let_def upt_rec crossing_def)
  have "\<exists>t i pre post. (t, i, pre, post) \<in> set (simulationRecordQ exampleQ)
          \<and> (t = 0 \<and> i = 0 \<and> crossing pre post \<and> currentStreetName (carOf pre) = ''a'')"
    by (rule entryAt[where k = 0]) (use vQ in auto)
  then obtain p0 q0 where
      e0: "(0, 0, p0, q0) \<in> set (simulationRecordQ exampleQ)" "crossing p0 q0"
        "currentStreetName (carOf p0) = ''a''"
    by blast
  have "\<exists>t i pre post. (t, i, pre, post) \<in> set (simulationRecordQ exampleQ)
          \<and> (t = 2 \<and> i = 0 \<and> currentStreetName (carOf pre) = ''c'')"
    by (rule entryAt[where k = 6]) (use vQ in auto)
  then obtain p6 q6 where
      e6: "(2, 0, p6, q6) \<in> set (simulationRecordQ exampleQ)"
        "currentStreetName (carOf p6) = ''c''"
    by blast
  obtain sc where c: "streets exampleQ ''c'' = Some sc" "schedule sc = None"
    by (simp add: exampleQ_value)
  from inst have "\<forall>(t, i, pre, post) \<in> set (simulationRecordQ exampleQ).
      crossing pre post \<longrightarrow>
        (\<exists>s w cycle timePart. streets exampleQ (currentStreetName (carOf pre)) = Some s
           \<and> schedule s = Some w \<and> scheduledTimeWindow s = Some cycle
           \<and> jsRemainder t cycle = Some timePart \<and> gte w \<le> timePart \<and> timePart \<le> lte w)"
    by (rule conjunct1)
  from bspec[OF this e0(1)] e0(2,3)
  have wQ: "\<exists>s w cycle timePart. streets exampleQ ''a'' = Some s
           \<and> schedule s = Some w \<and> scheduledTimeWindow s = Some cycle
           \<and> jsRemainder 0 cycle = Some timePart \<and> gte w \<le> timePart \<and> timePart \<le> lte w"
    by simp
  from inst have "\<forall>(t, i, pre, post) \<in> set (simulationRecordQ exampleQ).
        \<forall>s. streets exampleQ (currentStreetName (carOf pre)) = Some s \<and> schedule s = None
          \<longrightarrow> \<not> crossing pre post"
    by (rule conjunct1[OF conjunct2])
  from bspec[OF this e6(1)] e6(2) c have nQ: "\<not> crossing p6 q6" by simp
  have vA: "6 < length (simulationRecordA exampleSchedules exampleA)
        \<and> (case simulationRecordA exampleSchedules exampleA ! 0 of
             (t, i, pre, post) \<Rightarrow> t = 0 \<and> i = 0 \<and> crossing pre post \<and> streetOf pre = ''a'')
        \<and> (case simulationRecordA exampleSchedules exampleA ! 6 of
             (t, i, pre, post) \<Rightarrow> t = 2 \<and> i = 0 \<and> streetOf pre = ''c'')"
    by (simp add: recordA_defs exampleA_value exampleSchedules_value nthName_def Let_def
          upt_rec crossing_def streetOf_def routeStreet_def)
  have "\<exists>t i pre post. (t, i, pre, post) \<in> set (simulationRecordA exampleSchedules exampleA)
          \<and> (t = 0 \<and> i = 0 \<and> crossing pre post \<and> streetOf pre = ''a'')"
    by (rule entryAt[where k = 0]) (use vA in auto)
  then obtain a0 b0 where
      f0: "(0, 0, a0, b0) \<in> set (simulationRecordA exampleSchedules exampleA)" "crossing a0 b0"
        "streetOf a0 = ''a''"
    by blast
  have "\<exists>t i pre post. (t, i, pre, post) \<in> set (simulationRecordA exampleSchedules exampleA)
          \<and> (t = 2 \<and> i = 0 \<and> streetOf pre = ''c'')"
    by (rule entryAt[where k = 6]) (use vA in auto)
  then obtain a6 b6 where
      f6: "(2, 0, a6, b6) \<in> set (simulationRecordA exampleSchedules exampleA)"
        "streetOf a6 = ''c''"
    by blast
  obtain sa where cA: "streets exampleA ''c'' = Some sa"
      "\<forall>obj. exampleSchedules (numberKey (end' sa)) = Some obj \<longrightarrow> obj ''c'' = None"
    by (simp add: exampleA_value exampleSchedules_value numberKey_def natKey.simps)
  from inst have "\<forall>(t, i, pre, post) \<in> set (simulationRecordA exampleSchedules exampleA).
        crossing pre post \<longrightarrow>
          (\<exists>s obj g l cycle timePart. streets exampleA (streetOf pre) = Some s
             \<and> exampleSchedules (numberKey (end' s)) = Some obj
             \<and> obj (streetOf pre) = Some (Window g l)
             \<and> obj ''scheduledTimeWindow'' = Some (CycleLength cycle)
             \<and> jsRemainder t cycle = Some timePart \<and> g \<le> timePart \<and> timePart \<le> l)"
    by (rule conjunct1[OF conjunct2[OF conjunct2]])
  from bspec[OF this f0(1)] f0(2,3)
  have wA: "\<exists>s obj g l cycle timePart. streets exampleA ''a'' = Some s
             \<and> exampleSchedules (numberKey (end' s)) = Some obj \<and> obj ''a'' = Some (Window g l)
             \<and> obj ''scheduledTimeWindow'' = Some (CycleLength cycle)
             \<and> jsRemainder 0 cycle = Some timePart \<and> g \<le> timePart \<and> timePart \<le> l"
    by simp
  from inst have "\<forall>(t, i, pre, post) \<in> set (simulationRecordA exampleSchedules exampleA).
        \<forall>s. streets exampleA (streetOf pre) = Some s
             \<and> (\<forall>obj. exampleSchedules (numberKey (end' s)) = Some obj
                    \<longrightarrow> obj (streetOf pre) = None)
          \<longrightarrow> \<not> crossing pre post"
    by (rule conjunct2[OF conjunct2[OF conjunct2]])
  from bspec[OF this f6(1)] f6(2) cA have nA: "\<not> crossing a6 b6" by simp
  have 1: "\<exists>pre post. (0, 0, pre, post) \<in> set (simulationRecordQ exampleQ) \<and> crossing pre post
      \<and> currentStreetName (carOf pre) = ''a''
      \<and> (\<exists>s w cycle timePart. streets exampleQ ''a'' = Some s
           \<and> schedule s = Some w \<and> scheduledTimeWindow s = Some cycle
           \<and> jsRemainder 0 cycle = Some timePart \<and> gte w \<le> timePart \<and> timePart \<le> lte w)"
    using e0 wQ by (intro exI[of _ p0] exI[of _ q0]) simp
  have 2: "\<exists>pre post s. (2, 0, pre, post) \<in> set (simulationRecordQ exampleQ)
        \<and> streets exampleQ (currentStreetName (carOf pre)) = Some s \<and> schedule s = None
        \<and> \<not> crossing pre post"
    using e6 c nQ by (intro exI[of _ p6] exI[of _ q6] exI[of _ sc]) simp
  have 3: "\<exists>pre post. (0, 0, pre, post) \<in> set (simulationRecordA exampleSchedules exampleA)
        \<and> crossing pre post \<and> streetOf pre = ''a''
        \<and> (\<exists>s obj g l cycle timePart. streets exampleA ''a'' = Some s
             \<and> exampleSchedules (numberKey (end' s)) = Some obj \<and> obj ''a'' = Some (Window g l)
             \<and> obj ''scheduledTimeWindow'' = Some (CycleLength cycle)
             \<and> jsRemainder 0 cycle = Some timePart \<and> g \<le> timePart \<and> timePart \<le> l)"
    using f0 wA by (intro exI[of _ a0] exI[of _ b0]) simp
  have 4: "\<exists>pre post s. (2, 0, pre, post) \<in> set (simulationRecordA exampleSchedules exampleA)
        \<and> streets exampleA (streetOf pre) = Some s
        \<and> (\<forall>obj. exampleSchedules (numberKey (end' s)) = Some obj \<longrightarrow> obj (streetOf pre) = None)
        \<and> \<not> crossing pre post"
    using f6 cA nA by (intro exI[of _ a6] exI[of _ b6] exI[of _ sa]) simp
  from 1 2 3 4 show ?thesis by (intro conjI)
qed

section \<open>One crossing per street and tick\<close>

lemma marks_bodyQ: "marks currentStreetName (bodyQ sim r t)"
  unfolding marks_def bodyQ_def
  using processCarQ_crossing processCarQ_stay by (metis (full_types))

lemma marks_bodyA: "marks routeStreet (bodyA byId sim r t)"
  unfolding marks_def bodyA_def routeStreet_def
  using processCarA_crossing processCarA_stay by (metis (full_types))

lemma crossedStreets_Cons:
  "crossedStreets st ((i, pre, post) # calls) =
     (if crossing pre post then st (carOf pre) # crossedStreets st calls
      else crossedStreets st calls)"
  by (simp add: crossedStreets_def)

lemma crossedAt_append:
  "crossedAt st (xs @ ys) = crossedAt st xs @ crossedAt st ys"
  by (simp add: crossedAt_def)

lemma crossedAt_tick:
  "crossedAt st (map (Pair t) calls) = map (Pair t) (crossedStreets st calls)"
  by (induction calls) (auto simp: crossedAt_def crossedStreets_def)

lemma carCalls_marker:
  assumes "marks st body"
  shows "distinct (crossedStreets st (carCalls body order (m0, sts, cs)))
         \<and> (\<forall>name \<in> set (crossedStreets st (carCalls body order (m0, sts, cs))). \<not> m0 name)
         \<and> (\<forall>(i, pre, post) \<in> set (carCalls body order (m0, sts, cs)).
               \<forall>name. markerOf pre name \<longrightarrow>
                 m0 name \<or> name \<in> set (crossedStreets st (carCalls body order (m0, sts, cs))))"
proof (induction order arbitrary: m0 sts cs)
  case Nil
  show ?case by (simp add: crossedStreets_def)
next
  case (Cons i rest)
  show ?case
  proof (cases "i < length cs")
    case False
    then show ?thesis by (simp add: crossedStreets_def)
  next
    case True
    show ?thesis
    proof (cases "body i (m0, sts, cs ! i)")
      case (Inl e)
      then show ?thesis using True by (simp add: crossedStreets_def)
    next
      case (Inr y)
      obtain m' sts' c' where y: "y = (m', sts', c')" by (cases y)
      let ?C' = "carCalls body rest (m', sts', cs[i := c'])"
      have C: "carCalls body (i # rest) (m0, sts, cs) = (i, (m0, sts, cs ! i), (m', sts', c')) # ?C'"
        using True Inr y by simp
      from Cons.IH[of m' sts' "cs[i := c']"]
      have d: "distinct (crossedStreets st ?C')"
        and u: "\<forall>name \<in> set (crossedStreets st ?C'). \<not> m' name"
        and k: "\<forall>(i, pre, post) \<in> set ?C'. \<forall>name. markerOf pre name \<longrightarrow>
                  m' name \<or> name \<in> set (crossedStreets st ?C')"
        by blast+
      from assms Inr y
      have mk: "if currentStreetIdx c' \<noteq> currentStreetIdx (cs ! i)
                then \<not> m0 (st (cs ! i)) \<and> m' = m0(st (cs ! i) := True) else m' = m0"
        unfolding marks_def by blast
      show ?thesis
      proof (cases "currentStreetIdx c' \<noteq> currentStreetIdx (cs ! i)")
        case True
        with mk have m: "\<not> m0 (st (cs ! i))" "m' = m0(st (cs ! i) := True)" by simp_all
        have X: "crossedStreets st (carCalls body (i # rest) (m0, sts, cs))
                 = st (cs ! i) # crossedStreets st ?C'"
          unfolding C crossedStreets_Cons using True by (simp add: crossing_def)
        have 1: "distinct (st (cs ! i) # crossedStreets st ?C')"
          using d u m(2) by auto
        have 2: "\<forall>name \<in> set (st (cs ! i) # crossedStreets st ?C'). \<not> m0 name"
          using u m by (auto split: if_splits)
        have 3: "\<forall>(j, pre, post) \<in> set ((i, (m0, sts, cs ! i), (m', sts', c')) # ?C').
                   \<forall>name. markerOf pre name \<longrightarrow>
                     m0 name \<or> name \<in> set (st (cs ! i) # crossedStreets st ?C')"
          using k m(2) by (auto split: if_splits)
        show ?thesis unfolding X using 1 2 3 unfolding C by blast
      next
        case False
        with mk have m: "m' = m0" by simp
        have X: "crossedStreets st (carCalls body (i # rest) (m0, sts, cs))
                 = crossedStreets st ?C'"
          unfolding C crossedStreets_Cons using False by (simp add: crossing_def)
        have 3: "\<forall>(j, pre, post) \<in> set ((i, (m0, sts, cs ! i), (m', sts', c')) # ?C').
                   \<forall>name. markerOf pre name \<longrightarrow>
                     m0 name \<or> name \<in> set (crossedStreets st ?C')"
          using k m by auto
        show ?thesis unfolding X using d u 3 m unfolding C by blast
      qed
    qed
  qed
qed

lemma runCalls_from:
  "(t, x) \<in> set (runCalls calls body n horizon time d) \<Longrightarrow> time \<le> t"
  using runCalls_entry[of t x calls body n horizon time d] by auto

lemma crossedAt_from:
  assumes "\<forall>(t, x) \<in> set calls. time \<le> t" "(t, name) \<in> set (crossedAt st calls)"
  shows "time \<le> t"
  using assms by (auto simp: crossedAt_def)

lemma recordWith_marker:
  assumes "\<And>sim r t. marks st (body sim r t)"
  shows "distinct (crossedAt st (recordWith body ord n horizon time d))
         \<and> (\<forall>(t, i, pre, post) \<in> set (recordWith body ord n horizon time d).
               \<forall>name. markerOf pre name \<longrightarrow>
                 (t, name) \<in> set (crossedAt st (recordWith body ord n horizon time d))
                 \<or> inheritedName name)"
proof (induction n arbitrary: time d)
  case 0
  show ?case by (simp add: recordWith_def crossedAt_def)
next
  case (Suc n)
  define C where "C = carCalls (body (simulation d) (horizon - time) time) (ord d)
              (inheritedName, streets d, cars d)"
  define rest where "rest = (case tickWith body (ord d) (horizon - time) time d of
                 Inl e \<Rightarrow> [] | Inr d' \<Rightarrow> recordWith body ord n horizon (time + 1) d')"
  have R: "recordWith body ord (Suc n) horizon time d = map (Pair time) C @ rest"
    by (simp add: recordWith_def C_def rest_def split: sum.splits)
  have rest: "distinct (crossedAt st rest)
      \<and> (\<forall>(t, i, pre, post) \<in> set rest. \<forall>name. markerOf pre name \<longrightarrow>
            (t, name) \<in> set (crossedAt st rest) \<or> inheritedName name)"
  proof (cases "tickWith body (ord d) (horizon - time) time d")
    case (Inl e)
    then show ?thesis by (simp add: crossedAt_def rest_def)
  next
    case (Inr d')
    then show ?thesis using Suc.IH[of "time + 1" d'] by (simp add: rest_def)
  qed
  have later: "\<forall>(t, x) \<in> set rest. time + 1 \<le> t"
  proof (cases "tickWith body (ord d) (horizon - time) time d")
    case (Inl e)
    then show ?thesis by (simp add: rest_def)
  next
    case (Inr d')
    then have "rest = runCalls
       (\<lambda>r t d'. carCalls (body (simulation d') r t) (ord d') (inheritedName, streets d', cars d'))
       (\<lambda>r t d'. tickWith body (ord d') r t d') n horizon (time + 1) d'"
      by (simp add: rest_def recordWith_def)
    then show ?thesis using runCalls_from by fastforce
  qed
  from carCalls_marker[OF assms, of "simulation d" "horizon - time" time "ord d"
      "inheritedName" "streets d" "cars d"]
  have d: "distinct (crossedStreets st C)"
    and k: "\<forall>(i, pre, post) \<in> set C. \<forall>name. markerOf pre name \<longrightarrow>
              name \<in> set (crossedStreets st C) \<or> inheritedName name"
    unfolding C_def by blast+
  have X: "crossedAt st (recordWith body ord (Suc n) horizon time d)
           = map (Pair time) (crossedStreets st C) @ crossedAt st rest"
    unfolding R crossedAt_append crossedAt_tick ..
  have dis: "set (map (Pair time) (crossedStreets st C)) \<inter> set (crossedAt st rest) = {}"
  proof -
    have "\<And>t name. (t, name) \<in> set (crossedAt st rest) \<Longrightarrow> time + 1 \<le> t"
      using crossedAt_from[OF later] by blast
    then show ?thesis by fastforce
  qed
  have 1: "distinct (map (Pair time) (crossedStreets st C) @ crossedAt st rest)"
    using d rest dis by (simp add: distinct_map inj_on_def)
  have 2: "\<forall>(t, i, pre, post) \<in> set (map (Pair time) C @ rest).
             \<forall>name. markerOf pre name \<longrightarrow>
               (t, name) \<in> set (map (Pair time) (crossedStreets st C) @ crossedAt st rest)
               \<or> inheritedName name"
  proof -
    have a: "(time, name) \<in> Pair time ` set (crossedStreets st C) \<or> inheritedName name"
      if "(i, pre, post) \<in> set C" "markerOf pre name" for i pre post name
      using k that by fastforce
    have b: "(t, name) \<in> set (crossedAt st rest) \<or> inheritedName name"
      if "(t, i, pre, post) \<in> set rest" "markerOf pre name" for t i pre post name
      using rest that by fastforce
    show ?thesis using a b by (auto; blast)
  qed
  show ?case unfolding X using 1 2 unfolding R by blast
qed


text \<open>
  Claim C3. Whatever the order in which the cars are visited in each tick, and for
  either source: the pairs of tick and street of the crossings of a run are pairwise
  distinct, that is, no street is crossed twice in one tick; and a street is found
  marked as crossed only if it was crossed in that same tick or bears a name that
  every object inherits, so every tick starts with a fresh marker that keeps nothing
  of the ticks before.
\<close>

theorem one_crossing_per_street_and_tick:
  "distinct (crossedAt currentStreetName (recordQ ord n horizon time d))
   \<and> (\<forall>(t, i, pre, post) \<in> set (recordQ ord n horizon time d).
        \<forall>name. markerOf pre name \<longrightarrow>
          (t, name) \<in> set (crossedAt currentStreetName (recordQ ord n horizon time d))
          \<or> inheritedName name)
   \<and> distinct (crossedAt routeStreet (recordA byId ordA nA horizonA timeA dA))
   \<and> (\<forall>(t, i, pre, post) \<in> set (recordA byId ordA nA horizonA timeA dA).
        \<forall>name. markerOf pre name \<longrightarrow>
          (t, name) \<in> set (crossedAt routeStreet (recordA byId ordA nA horizonA timeA dA))
          \<or> inheritedName name)"
  using recordWith_marker[of currentStreetName bodyQ ord n horizon time d, OF marks_bodyQ]
    recordWith_marker[of routeStreet "bodyA byId" ordA nA horizonA timeA dA, OF marks_bodyA]
  unfolding recordQ_With recordA_With by blast

theorem one_crossing_per_street_and_tick_witness:
  "distinct (crossedAt currentStreetName (simulationRecordQ exampleQ))
   \<and> (\<exists>pre post. (0, 1, pre, post) \<in> set (simulationRecordQ exampleQ) \<and> markerOf pre ''a''
         \<and> (0, ''a'') \<in> set (crossedAt currentStreetName (simulationRecordQ exampleQ)))
   \<and> distinct (crossedAt routeStreet (simulationRecordA exampleSchedules exampleA))
   \<and> (\<exists>pre post. (0, 1, pre, post) \<in> set (simulationRecordA exampleSchedules exampleA)
         \<and> markerOf pre ''a''
         \<and> (0, ''a'') \<in> set (crossedAt routeStreet (simulationRecordA exampleSchedules exampleA)))
   \<and> \<not> inheritedName ''a''"
proof -
  have plain: "\<not> inheritedName ''a''" by (simp add: inheritedName_def inheritedNames_def)
  note inst = one_crossing_per_street_and_tick[of ascendingQ
      "nat (simulationDuration (simulation exampleQ) + 1)"
      "simulationDuration (simulation exampleQ)" 0 exampleQ exampleSchedules ascendingA
      "nat (simulationDuration (simulation exampleA) + 1)"
      "simulationDuration (simulation exampleA)" 0 exampleA,
      folded simulationRecordQ_def simulationRecordA_def]
  have vQ: "1 < length (simulationRecordQ exampleQ)
        \<and> (case simulationRecordQ exampleQ ! 1 of
             (t, i, pre, post) \<Rightarrow> t = 0 \<and> i = 1 \<and> markerOf pre ''a'')"
    by (simp add: recordQ_defs exampleQ_value nthName_def Let_def upt_rec)
  have "\<exists>t i pre post. (t, i, pre, post) \<in> set (simulationRecordQ exampleQ)
          \<and> (t = 0 \<and> i = 1 \<and> markerOf pre ''a'')"
    by (rule entryAt[where k = 1]) (use vQ in auto)
  then obtain p1 q1 where
      e1: "(0, 1, p1, q1) \<in> set (simulationRecordQ exampleQ)" "markerOf p1 ''a''"
    by blast
  from inst have "\<forall>(t, i, pre, post) \<in> set (simulationRecordQ exampleQ).
        \<forall>name. markerOf pre name \<longrightarrow>
          (t, name) \<in> set (crossedAt currentStreetName (simulationRecordQ exampleQ))
          \<or> inheritedName name"
    by (rule conjunct1[OF conjunct2])
  from bspec[OF this e1(1)] e1(2) plain
  have mQ: "(0, ''a'') \<in> set (crossedAt currentStreetName (simulationRecordQ exampleQ))"
    by blast
  have vA: "1 < length (simulationRecordA exampleSchedules exampleA)
        \<and> (case simulationRecordA exampleSchedules exampleA ! 1 of
             (t, i, pre, post) \<Rightarrow> t = 0 \<and> i = 1 \<and> markerOf pre ''a'')"
    by (simp add: recordA_defs exampleA_value exampleSchedules_value nthName_def Let_def
          upt_rec)
  have "\<exists>t i pre post. (t, i, pre, post) \<in> set (simulationRecordA exampleSchedules exampleA)
          \<and> (t = 0 \<and> i = 1 \<and> markerOf pre ''a'')"
    by (rule entryAt[where k = 1]) (use vA in auto)
  then obtain a1 b1 where
      f1: "(0, 1, a1, b1) \<in> set (simulationRecordA exampleSchedules exampleA)"
        "markerOf a1 ''a''"
    by blast
  from inst have "\<forall>(t, i, pre, post) \<in> set (simulationRecordA exampleSchedules exampleA).
        \<forall>name. markerOf pre name \<longrightarrow>
          (t, name) \<in> set (crossedAt routeStreet (simulationRecordA exampleSchedules exampleA))
          \<or> inheritedName name"
    by (rule conjunct2[OF conjunct2[OF conjunct2]])
  from bspec[OF this f1(1)] f1(2) plain
  have mA: "(0, ''a'') \<in> set (crossedAt routeStreet (simulationRecordA exampleSchedules exampleA))"
    by blast
  have 1: "\<exists>pre post. (0, 1, pre, post) \<in> set (simulationRecordQ exampleQ) \<and> markerOf pre ''a''
         \<and> (0, ''a'') \<in> set (crossedAt currentStreetName (simulationRecordQ exampleQ))"
    using e1 mQ by (intro exI[of _ p1] exI[of _ q1]) simp
  have 2: "\<exists>pre post. (0, 1, pre, post) \<in> set (simulationRecordA exampleSchedules exampleA)
         \<and> markerOf pre ''a''
         \<and> (0, ''a'') \<in> set (crossedAt routeStreet (simulationRecordA exampleSchedules exampleA))"
    using f1 mA by (intro exI[of _ a1] exI[of _ b1]) simp
  from inst 1 2 plain show ?thesis by (intro conjI) simp_all
qed

section \<open>Crossings follow the queuing numbers\<close>

lemma consecutiveFrom_append:
  "consecutiveFrom l (xs @ ys) =
     (consecutiveFrom l xs \<and> consecutiveFrom (l + int (length xs)) ys)"
proof (induction xs arbitrary: l)
  case Nil
  show ?case by simp
next
  case (Cons x xs)
  have e: "l + int (length (x # xs)) = l + 1 + int (length xs)" by simp
  show ?case
  proof (cases "x = l + 1")
    case True
    then show ?thesis unfolding e using Cons.IH[of "l + 1"] by simp
  next
    case False
    then show ?thesis by simp
  qed
qed

lemma consecutiveFrom_map:
  "consecutiveFrom l xs \<Longrightarrow> xs = map (\<lambda>k. l + 1 + int k) [0..<length xs]"
proof (induction xs arbitrary: l)
  case Nil
  show ?case by simp
next
  case (Cons x xs)
  from Cons.prems have x: "x = l + 1" and c: "consecutiveFrom x xs" by auto
  have "map (\<lambda>k. l + 1 + int k) [0..<length (x # xs)]
        = (l + 1) # map (\<lambda>k. l + 1 + int (Suc k)) [0..<length xs]"
    by (simp add: upt_rec[of 0] map_Suc_upt[symmetric] del: upt_Suc)
  also have "\<dots> = x # map (\<lambda>k. x + 1 + int k) [0..<length xs]"
    using x by (simp add: algebra_simps)
  also have "\<dots> = x # xs" using Cons.IH[OF c] by simp
  finally show ?case by simp
qed

lemma consecutiveFrom_sorted:
  "consecutiveFrom l xs \<Longrightarrow> sorted_wrt (<) xs \<and> (\<forall>x \<in> set xs. l < x)"
proof (induction xs arbitrary: l)
  case Nil
  show ?case by simp
next
  case (Cons x xs)
  from Cons.prems have x: "x = l + 1" and c: "consecutiveFrom x xs" by auto
  from Cons.IH[OF c] x show ?case by auto
qed

lemma continues_sorted: "continues l xs \<Longrightarrow> sorted_wrt (<) xs"
  using consecutiveFrom_sorted by (auto simp: continues_def split: option.splits)

lemma processCarQ_last:
  assumes "processCarQ bonus r t i (m, sts, c) = Inr (m', sts', c')"
  shows "if currentStreetIdx c' \<noteq> currentStreetIdx c \<and> currentStreetName c = name
         then \<exists>s s'. sts name = Some s \<and> sts' name = Some s'
                \<and> lastQueuingNumber s' = lastQueuingNumber s + 1
                \<and> queuingNumber c' = lastQueuingNumber s + 1
         else map_option lastQueuingNumber (sts' name) = map_option lastQueuingNumber (sts name)"
  using assms
  by (auto simp: processCarQ_def enqueueQ_def drive_def arrive_def crossQ_def Let_def
           split: if_splits option.splits sum.splits)

lemma ticketsIn_Cons:
  "ticketsIn name ((i, pre, post) # calls) =
     (if crossing pre post \<and> currentStreetName (carOf pre) = name
      then queuingNumber (carOf post) # ticketsIn name calls else ticketsIn name calls)"
  by (simp add: ticketsIn_def)

lemma ticketsOn_append: "ticketsOn name (xs @ ys) = ticketsOn name xs @ ticketsOn name ys"
  by (simp add: ticketsOn_def)

lemma ticketsOn_tick: "ticketsOn name (map (Pair t) calls) = ticketsIn name calls"
  by (induction calls) (auto simp: ticketsOn_def ticketsIn_def)

lemma continues_step:
  assumes "continues (Some (l + 1)) xs"
  shows "continues (Some l) ((l + 1) # xs)"
  using assms by (simp add: continues_def)

text \<open>Within one tick.\<close>

lemma carCalls_tickets:
  "continues (map_option lastQueuingNumber (sts name))
     (ticketsIn name (carCalls (processCarQ bonus r t) order (m, sts, cs)))
   \<and> (\<forall>m' sts' cs'. forCars (processCarQ bonus r t) order (m, sts, cs) = Inr (m', sts', cs') \<longrightarrow>
         map_option lastQueuingNumber (sts' name)
         = map_option (\<lambda>l. l + int (length
               (ticketsIn name (carCalls (processCarQ bonus r t) order (m, sts, cs)))))
             (map_option lastQueuingNumber (sts name)))"
proof (induction order arbitrary: m sts cs)
  case Nil
  show ?case by (cases "sts name") (simp_all add: ticketsIn_def continues_def)
next
  case (Cons i rest)
  show ?case
  proof (cases "i < length cs")
    case False
    then show ?thesis by (cases "sts name") (simp_all add: ticketsIn_def continues_def)
  next
    case True
    show ?thesis
    proof (cases "processCarQ bonus r t i (m, sts, cs ! i)")
      case (Inl e)
      then show ?thesis using True
        by (cases "sts name") (simp_all add: ticketsIn_def continues_def)
    next
      case (Inr y)
      obtain m1 sts1 c1 where y: "y = (m1, sts1, c1)" by (cases y)
      define C' where "C' = carCalls (processCarQ bonus r t) rest (m1, sts1, cs[i := c1])"
      have C: "carCalls (processCarQ bonus r t) (i # rest) (m, sts, cs)
               = (i, (m, sts, cs ! i), (m1, sts1, c1)) # C'"
        using True Inr y by (simp add: C'_def)
      have F: "forCars (processCarQ bonus r t) (i # rest) (m, sts, cs)
               = forCars (processCarQ bonus r t) rest (m1, sts1, cs[i := c1])"
        using True Inr y by simp
      from Cons.IH[where m = m1 and sts = sts1 and cs = "cs[i := c1]"]
      have ih1: "continues (map_option lastQueuingNumber (sts1 name)) (ticketsIn name C')"
        and ih2: "\<And>m' sts' cs'. forCars (processCarQ bonus r t) rest (m1, sts1, cs[i := c1])
                      = Inr (m', sts', cs') \<Longrightarrow>
                    map_option lastQueuingNumber (sts' name)
                    = map_option (\<lambda>l. l + int (length (ticketsIn name C')))
                        (map_option lastQueuingNumber (sts1 name))"
        unfolding C'_def by blast+
      from processCarQ_last[OF Inr[unfolded y], of name]
      have step: "if currentStreetIdx c1 \<noteq> currentStreetIdx (cs ! i)
                     \<and> currentStreetName (cs ! i) = name
         then \<exists>s s'. sts name = Some s \<and> sts1 name = Some s'
                \<and> lastQueuingNumber s' = lastQueuingNumber s + 1
                \<and> queuingNumber c1 = lastQueuingNumber s + 1
         else map_option lastQueuingNumber (sts1 name) = map_option lastQueuingNumber (sts name)" .
      show ?thesis
      proof (cases "currentStreetIdx c1 \<noteq> currentStreetIdx (cs ! i)
                     \<and> currentStreetName (cs ! i) = name")
        case True
        with step obtain s s' where s: "sts name = Some s" "sts1 name = Some s'"
          "lastQueuingNumber s' = lastQueuingNumber s + 1"
          "queuingNumber c1 = lastQueuingNumber s + 1" by auto
        have T: "ticketsIn name (carCalls (processCarQ bonus r t) (i # rest) (m, sts, cs))
                 = (lastQueuingNumber s + 1) # ticketsIn name C'"
          unfolding C ticketsIn_Cons using True s(4) by (simp add: crossing_def)
        have 1: "continues (Some (lastQueuingNumber s)) ((lastQueuingNumber s + 1) # ticketsIn name C')"
          using ih1 s by (intro continues_step) simp
        have 2: "\<And>m' sts' cs'. forCars (processCarQ bonus r t) rest (m1, sts1, cs[i := c1])
                      = Inr (m', sts', cs') \<Longrightarrow>
                    map_option lastQueuingNumber (sts' name)
                    = Some (lastQueuingNumber s + int (length
                         ((lastQueuingNumber s + 1) # ticketsIn name C')))"
          using ih2 s by (simp add: algebra_simps)
        show ?thesis unfolding T F using 1 2 s by simp
      next
        case False
        with step have s: "map_option lastQueuingNumber (sts1 name)
                           = map_option lastQueuingNumber (sts name)" by simp
        have T: "ticketsIn name (carCalls (processCarQ bonus r t) (i # rest) (m, sts, cs))
                 = ticketsIn name C'"
          unfolding C ticketsIn_Cons using False by (auto simp: crossing_def)
        show ?thesis unfolding T F using ih1 ih2 s by simp
      qed
    qed
  qed
qed

lemma continues_append:
  assumes "continues l xs" "continues (map_option (\<lambda>l0. l0 + int (length xs)) l) ys"
  shows "continues l (xs @ ys)"
  using assms by (cases l) (simp_all add: continues_def consecutiveFrom_append)

text \<open>Over the ticks of a run.\<close>

lemma recordQ_tickets:
  "continues (map_option lastQueuingNumber (streets d name))
     (ticketsOn name (recordQ ord n horizon time d))"
proof (induction n arbitrary: time d)
  case 0
  show ?case
    by (cases "streets d name") (simp_all add: recordQ_def ticketsOn_def continues_def)
next
  case (Suc n)
  define C where "C = callsQ (ord d) (horizon - time) time d"
  define rest where "rest = (case tickQ (ord d) (horizon - time) time d of
                 Inl e \<Rightarrow> [] | Inr d' \<Rightarrow> recordQ ord n horizon (time + 1) d')"
  have R: "recordQ ord (Suc n) horizon time d = map (Pair time) C @ rest"
    by (simp add: recordQ_def C_def rest_def split: sum.splits)
  note tk = carCalls_tickets[of "streets d" name "bonusPoint (simulation d)" "horizon - time" time
      "ord d" "inheritedName" "cars d", folded callsQ_def, folded C_def]
  from tk have c1: "continues (map_option lastQueuingNumber (streets d name)) (ticketsIn name C)"
    by blast
  have c2: "continues (map_option (\<lambda>l0. l0 + int (length (ticketsIn name C)))
                (map_option lastQueuingNumber (streets d name))) (ticketsOn name rest)"
  proof (cases "tickQ (ord d) (horizon - time) time d")
    case (Inl e)
    then show ?thesis
      by (cases "streets d name") (simp_all add: rest_def ticketsOn_def continues_def)
  next
    case (Inr d')
    then obtain m' sts' cs' where f: "forCars (processCarQ (bonusPoint (simulation d))
          (horizon - time) time) (ord d) (inheritedName, streets d, cars d) = Inr (m', sts', cs')"
      and d': "d' = d\<lparr>streets := sts', cars := cs'\<rparr>"
      by (auto simp: tickQ_def split: sum.splits)
    from tk f have "map_option lastQueuingNumber (sts' name)
         = map_option (\<lambda>l. l + int (length (ticketsIn name C)))
             (map_option lastQueuingNumber (streets d name))" by blast
    then show ?thesis using Suc.IH[of d' "time + 1"] Inr d' by (simp add: rest_def)
  qed
  show ?case unfolding R ticketsOn_append ticketsOn_tick
    using continues_append[OF c1 c2] .
qed

lemma processCarA_head:
  assumes "processCarA byId bonus r t i (m, sts, c) = Inr (m', sts', c')"
    "currentStreetIdx c' \<noteq> currentStreetIdx c"
  shows "\<exists>s s'. sts (routeStreet c) = Some s \<and> sts' (routeStreet c) = Some s'
           \<and> (i # carIdQueue s' = carIdQueue s \<or> i # carIdQueue s' = carIdQueue s @ [i])"
  using assms
  by (auto simp: processCarA_def enqueueA_def drive_def arrive_def crossA_def Let_def
           routeStreet_def
           split: if_splits option.splits sum.splits list.splits)


lemma recordA_call:
  assumes "(t, i, pre, post) \<in> set (recordA byId ord n horizon time d)"
  shows "processCarA byId (bonusPoint (simulation d)) (horizon - t) t i pre = Inr post"
proof -
  from recordWith_entry[where K = "\<lambda>sts cs. True", OF _ _ assms[unfolded recordA_With]]
  show ?thesis by (auto simp: bodyA_def)
qed

lemma recordQ_call:
  assumes "(t, i, pre, post) \<in> set (recordQ ord n horizon time d)"
  shows "processCarQ (bonusPoint (simulation d)) (horizon - t) t i pre = Inr post"
proof -
  from recordWith_entry[where K = "\<lambda>sts cs. True", OF _ _ assms[unfolded recordQ_With]]
  show ?thesis by (auto simp: bodyQ_def)
qed

text \<open>
  Claim C4. In part_001, whatever the order in which the cars are visited, the queuing
  numbers with which a street is crossed are, in the order of the crossings, the
  numbers following the street's counter \<^verbatim>\<open>lastQueuingNumber\<close> one by one; so
  they ascend strictly, and of two cars that cross a street the one with the smaller
  number crosses first. In index.js the car that crosses is the head of the street's
  queue and is removed from it.
\<close>

theorem crossings_in_queuing_number_order:
  "(\<forall>s. streets d name = Some s \<longrightarrow>
      ticketsOn name (recordQ ord n horizon time d)
      = map (\<lambda>k. lastQueuingNumber s + 1 + int k)
          [0..<length (ticketsOn name (recordQ ord n horizon time d))])
   \<and> sorted_wrt (<) (ticketsOn name (recordQ ord n horizon time d))
   \<and> (\<forall>(t, i, pre, post) \<in> set (recordA byId ordA nA horizonA timeA dA).
        crossing pre post \<longrightarrow>
          (\<exists>s s'. streetsOf pre (streetOf pre) = Some s \<and> streetsOf post (streetOf pre) = Some s'
             \<and> (i # carIdQueue s' = carIdQueue s \<or> i # carIdQueue s' = carIdQueue s @ [i])))"
proof (intro conjI)
  show "\<forall>s. streets d name = Some s \<longrightarrow>
      ticketsOn name (recordQ ord n horizon time d)
      = map (\<lambda>k. lastQueuingNumber s + 1 + int k)
          [0..<length (ticketsOn name (recordQ ord n horizon time d))]"
    using recordQ_tickets[of d name ord n horizon time] consecutiveFrom_map
    by (auto simp: continues_def)
next
  show "sorted_wrt (<) (ticketsOn name (recordQ ord n horizon time d))"
    using recordQ_tickets[of d name ord n horizon time] by (rule continues_sorted)
next
  show "\<forall>(t, i, pre, post) \<in> set (recordA byId ordA nA horizonA timeA dA).
        crossing pre post \<longrightarrow>
          (\<exists>s s'. streetsOf pre (streetOf pre) = Some s \<and> streetsOf post (streetOf pre) = Some s'
             \<and> (i # carIdQueue s' = carIdQueue s \<or> i # carIdQueue s' = carIdQueue s @ [i]))"
  proof (clarify)
    fix t i m sts c m' sts' c'
    assume e: "(t, i, (m, sts, c), (m', sts', c')) \<in> set (recordA byId ordA nA horizonA timeA dA)"
      and x: "crossing (m, sts, c) (m', sts', c')"
    from x have "currentStreetIdx c' \<noteq> currentStreetIdx c" by (simp add: crossing_def)
    from processCarA_head[OF recordA_call[OF e] this]
    show "\<exists>s s'. streetsOf (m, sts, c) (streetOf (m, sts, c)) = Some s
            \<and> streetsOf (m', sts', c') (streetOf (m, sts, c)) = Some s'
            \<and> (i # carIdQueue s' = carIdQueue s \<or> i # carIdQueue s' = carIdQueue s @ [i])"
      by (simp add: streetOf_def)
  qed
qed

theorem crossings_in_queuing_number_order_witness:
  "(\<exists>s. streets exampleQ ''a'' = Some s \<and> lastQueuingNumber s = - 1)
   \<and> ticketsOn ''a'' (simulationRecordQ exampleQ) = [0, 1, 2]
   \<and> sorted_wrt (<) (ticketsOn ''a'' (simulationRecordQ exampleQ))
   \<and> (\<exists>pre post s s'. (0, 0, pre, post) \<in> set (simulationRecordA exampleSchedules exampleA)
         \<and> crossing pre post
         \<and> streetsOf pre (streetOf pre) = Some s \<and> streetsOf post (streetOf pre) = Some s'
         \<and> (0 # carIdQueue s' = carIdQueue s \<or> 0 # carIdQueue s' = carIdQueue s @ [0]))"
proof -
  note inst = crossings_in_queuing_number_order[of exampleQ "''a''" ascendingQ
      "nat (simulationDuration (simulation exampleQ) + 1)"
      "simulationDuration (simulation exampleQ)" 0 exampleSchedules ascendingA
      "nat (simulationDuration (simulation exampleA) + 1)"
      "simulationDuration (simulation exampleA)" 0 exampleA,
      folded simulationRecordQ_def simulationRecordA_def]
  obtain sa where sa: "streets exampleQ ''a'' = Some sa" "lastQueuingNumber sa = - 1"
    by (simp add: exampleQ_value)
  have len: "length (ticketsOn ''a'' (simulationRecordQ exampleQ)) = 3"
    by (simp add: ticketsOn_def recordQ_defs exampleQ_value nthName_def Let_def upt_rec
          crossing_def)
  from inst sa have "ticketsOn ''a'' (simulationRecordQ exampleQ)
      = map (\<lambda>k. lastQueuingNumber sa + 1 + int k)
          [0..<length (ticketsOn ''a'' (simulationRecordQ exampleQ))]"
    by blast
  then have tk: "ticketsOn ''a'' (simulationRecordQ exampleQ) = [0, 1, 2]"
    unfolding len sa(2) by (simp add: upt_rec numeral_eq_Suc)
  from inst have so: "sorted_wrt (<) (ticketsOn ''a'' (simulationRecordQ exampleQ))"
    by blast
  have vA: "0 < length (simulationRecordA exampleSchedules exampleA)
        \<and> (case simulationRecordA exampleSchedules exampleA ! 0 of
             (t, i, pre, post) \<Rightarrow> t = 0 \<and> i = 0 \<and> crossing pre post)"
    by (simp add: recordA_defs exampleA_value exampleSchedules_value nthName_def Let_def
          upt_rec crossing_def)
  have "\<exists>t i pre post. (t, i, pre, post) \<in> set (simulationRecordA exampleSchedules exampleA)
          \<and> (t = 0 \<and> i = 0 \<and> crossing pre post)"
    by (rule entryAt[where k = 0]) (use vA in auto)
  then obtain a0 b0 where
      f0: "(0, 0, a0, b0) \<in> set (simulationRecordA exampleSchedules exampleA)" "crossing a0 b0"
    by blast
  from inst have "\<forall>(t, i, pre, post) \<in> set (simulationRecordA exampleSchedules exampleA).
        crossing pre post \<longrightarrow>
          (\<exists>s s'. streetsOf pre (streetOf pre) = Some s \<and> streetsOf post (streetOf pre) = Some s'
             \<and> (i # carIdQueue s' = carIdQueue s \<or> i # carIdQueue s' = carIdQueue s @ [i]))"
    by blast
  from bspec[OF this f0(1)] f0(2)
  obtain s s' where q: "streetsOf a0 (streetOf a0) = Some s" "streetsOf b0 (streetOf a0) = Some s'"
      "0 # carIdQueue s' = carIdQueue s \<or> 0 # carIdQueue s' = carIdQueue s @ [0]"
    by auto
  have 1: "\<exists>s. streets exampleQ ''a'' = Some s \<and> lastQueuingNumber s = - 1"
    using sa by simp
  have 2: "\<exists>pre post s s'. (0, 0, pre, post) \<in> set (simulationRecordA exampleSchedules exampleA)
         \<and> crossing pre post
         \<and> streetsOf pre (streetOf pre) = Some s \<and> streetsOf post (streetOf pre) = Some s'
         \<and> (0 # carIdQueue s' = carIdQueue s \<or> 0 # carIdQueue s' = carIdQueue s @ [0])"
    using f0 q by (intro exI[of _ a0] exI[of _ b0] exI[of _ s] exI[of _ s']) simp
  from 1 tk so 2 show ?thesis by (intro conjI)
qed

section \<open>Registration in a queue\<close>









section \<open>The final tick\<close>


lemma shortA_value:
  "shortA = exampleA\<lparr>simulation := \<lparr>simulationDuration = 2, numIntersections = 3, numStreets = 3,
                 numCars = 3, bonusPoint = 1000\<rparr>\<rparr>"
  unfolding exampleA_value
  by (simp add: shortA_def shortInput_def parse_defs parseA_defs fun_eq_iff)

lemma shortSchedules:
  "fst (projr (parseSubmittedDataSetA decimal shortA exampleSubmission)) = exampleSchedules"
  unfolding exampleSchedules_value shortA_value exampleA_value
  by (simp add: exampleSubmission_def parse_defs parseA_defs fun_eq_iff)











section \<open>Bounds of the cars\<close>













section \<open>The averages of a validated submission\<close>

lemma total_simps [simp]:
  "total [] = 0" "total (Some v # gs) = v + total gs" "total (gs @ hs) = total gs + total hs"
  by (simp_all add: total_def)

lemma total_concat: "total (concat gss) = sum_list (map total gss)"
  by (induction gss) simp_all

lemma scheduleStreetA_loop:
  "forEach (scheduleStreetA num horizon sts lines intersectionId base) js (obj, l, cycles)
     = Inr (obj', l', cycles') \<Longrightarrow>
   (\<forall>j \<in> set js. \<exists>v. greenAt num lines (base + j) = Some v \<and> 1 \<le> v \<and> v \<le> horizon)
   \<and> l' = l + total (map (\<lambda>j. greenAt num lines (base + j)) js)
   \<and> cycles' = cycles + total (map (\<lambda>j. greenAt num lines (base + j)) js)"
proof (induction js arbitrary: obj l cycles)
  case Nil
  then show ?case by simp
next
  case (Cons j js)
  from Cons.prems obtain obj1 l1 c1 where
    b: "scheduleStreetA num horizon sts lines intersectionId base j (obj, l, cycles)
          = Inr (obj1, l1, c1)"
    and r: "forEach (scheduleStreetA num horizon sts lines intersectionId base) js (obj1, l1, c1)
          = Inr (obj', l', cycles')"
    by (auto split: sum.splits)
  from b obtain v where v: "greenAt num lines (base + j) = Some v" "1 \<le> v" "v \<le> horizon"
    "l1 = l + v" "c1 = cycles + v"
    by (auto simp: scheduleStreetA_def greenAt_def Let_def split: option.splits if_splits)
  from Cons.IH[OF r] v show ?case by simp
qed

lemma scheduleStreetQ_loop:
  "forEach (scheduleStreetQ num horizon lines intersectionId base) js (sts, names, l)
     = Inr (sts', names', l') \<Longrightarrow>
   (\<forall>j \<in> set js. \<exists>v. greenAt num lines (base + j) = Some v \<and> 1 \<le> v \<and> v \<le> horizon)
   \<and> l' = l + total (map (\<lambda>j. greenAt num lines (base + j)) js)"
proof (induction js arbitrary: sts names l)
  case Nil
  then show ?case by simp
next
  case (Cons j js)
  from Cons.prems obtain sts1 names1 l1 where
    b: "scheduleStreetQ num horizon lines intersectionId base j (sts, names, l)
          = Inr (sts1, names1, l1)"
    and r: "forEach (scheduleStreetQ num horizon lines intersectionId base) js (sts1, names1, l1)
          = Inr (sts', names', l')"
    by (auto split: sum.splits)
  from b obtain v where v: "greenAt num lines (base + j) = Some v" "1 \<le> v" "v \<le> horizon"
    "l1 = l + v"
    by (auto simp: scheduleStreetQ_def greenAt_def Let_def split: option.splits if_splits)
  from Cons.IH[OF r] v show ?case by simp
qed


lemma scheduleIntersectionA_loop:
  "forEach (scheduleIntersectionA num horizon sts lines) (map int [i0..<i0 + k]) (cl, ns, byId, cycles) = Inr (cl', ns', byId', cycles') \<Longrightarrow>
   length (declaredBlocks num lines k (cl + int i0)) = k
   \<and> (\<forall>g \<in> set (greenDurations (declaredBlocks num lines k (cl + int i0))).
         \<exists>v. g = Some v \<and> 1 \<le> v \<and> v \<le> horizon)
   \<and> ns' = ns + declaredEntries (declaredBlocks num lines k (cl + int i0))
   \<and> cycles' = cycles + sum_list (cycleLengths (declaredBlocks num lines k (cl + int i0)))"
proof (induction k arbitrary: i0 cl ns byId cycles)
  case 0
  then show ?case by (simp add: greenDurations_def declaredEntries_def cycleLengths_def)
next
  case (Suc k)
  have u: "map int [i0..<i0 + Suc k] = int i0 # map int [Suc i0..<Suc i0 + k]"
    by (simp add: upt_rec)
  from Suc.prems[unfolded u] obtain cl1 ns1 byId1 c1 where
    b: "scheduleIntersectionA num horizon sts lines (int i0) (cl, ns, byId, cycles) = Inr (cl1, ns1, byId1, c1)"
    and rest: "forEach (scheduleIntersectionA num horizon sts lines) (map int [Suc i0..<Suc i0 + k]) (cl1, ns1, byId1, c1) = Inr (cl', ns', byId', cycles')"
    by (auto split: sum.splits)
    from b obtain r n obj l c2 where
      n: "lineAt lines (cl + int i0 + 1) = Some r" "num r = Some n"
      and f: "forEach (scheduleStreetA num horizon sts lines (lineAt lines (cl + int i0))
                 (cl + int i0 + 2)) (map int [0..<nat n]) (Map.empty, 0, cycles) = Inr (obj, l, c2)"
      and st: "cl1 = cl + n + 1" "ns1 = ns + n" "c1 = c2"
      by (auto simp: scheduleIntersectionA_def Let_def split: option.splits if_splits sum.splits)
    from scheduleStreetA_loop[OF f]
    have g: "\<forall>j \<in> set (map int [0..<nat n]).
               \<exists>v. greenAt num lines (cl + int i0 + 2 + j) = Some v \<and> 1 \<le> v \<and> v \<le> horizon"
      and c: "c1 = cycles + total (map (\<lambda>j. greenAt num lines (cl + int i0 + 2 + j))
                                    (map int [0..<nat n]))"
      using st by simp_all
  have pos: "cl1 + int (Suc i0) = cl + int i0 + 2 + n" using st by simp
  have blocks: "declaredBlocks num lines (Suc k) (cl + int i0) =
      (n, map (\<lambda>j. greenAt num lines (cl + int i0 + 2 + j)) (map int [0..<nat n]))
      # declaredBlocks num lines k (cl1 + int (Suc i0))"
    using n unfolding pos by (simp add: toNumber_def)
  from Suc.IH[OF rest] have ih:
    "length (declaredBlocks num lines k (cl1 + int (Suc i0))) = k"
    "\<forall>g \<in> set (greenDurations (declaredBlocks num lines k (cl1 + int (Suc i0)))).
         \<exists>v. g = Some v \<and> 1 \<le> v \<and> v \<le> horizon"
    "ns' = ns1 + declaredEntries (declaredBlocks num lines k (cl1 + int (Suc i0)))"
    "cycles' = c1 + sum_list (cycleLengths (declaredBlocks num lines k (cl1 + int (Suc i0))))"
    by simp_all
  have 1: "length (declaredBlocks num lines (Suc k) (cl + int i0)) = Suc k"
    unfolding blocks using ih(1) by simp
  have 2: "\<forall>g \<in> set (greenDurations (declaredBlocks num lines (Suc k) (cl + int i0))).
         \<exists>v. g = Some v \<and> 1 \<le> v \<and> v \<le> horizon"
    unfolding blocks using ih(2) g by (auto simp: greenDurations_def)
  have 3: "ns' = ns + declaredEntries (declaredBlocks num lines (Suc k) (cl + int i0))"
    unfolding blocks using ih(3) st by (simp add: declaredEntries_def)
  have 4: "cycles' = cycles + sum_list (cycleLengths (declaredBlocks num lines (Suc k) (cl + int i0)))"
    unfolding blocks using ih(4) c by (simp add: cycleLengths_def)
  show ?case using 1 2 3 4 by blast
qed

lemma scheduleIntersectionQ_loop:
  "forEach (scheduleIntersectionQ num horizon lines) (map int [i0..<i0 + k]) (cl, ns, byId, sts, cycles) = Inr (cl', ns', byId', sts', cycles') \<Longrightarrow>
   length (declaredBlocks num lines k (cl + int i0)) = k
   \<and> (\<forall>g \<in> set (greenDurations (declaredBlocks num lines k (cl + int i0))).
         \<exists>v. g = Some v \<and> 1 \<le> v \<and> v \<le> horizon)
   \<and> ns' = ns + declaredEntries (declaredBlocks num lines k (cl + int i0))
   \<and> cycles' = cycles + sum_list (cycleLengths (declaredBlocks num lines k (cl + int i0)))"
proof (induction k arbitrary: i0 cl ns byId sts cycles)
  case 0
  then show ?case by (simp add: greenDurations_def declaredEntries_def cycleLengths_def)
next
  case (Suc k)
  have u: "map int [i0..<i0 + Suc k] = int i0 # map int [Suc i0..<Suc i0 + k]"
    by (simp add: upt_rec)
  from Suc.prems[unfolded u] obtain cl1 ns1 byId1 sts1 c1 where
    b: "scheduleIntersectionQ num horizon lines (int i0) (cl, ns, byId, sts, cycles) = Inr (cl1, ns1, byId1, sts1, c1)"
    and rest: "forEach (scheduleIntersectionQ num horizon lines) (map int [Suc i0..<Suc i0 + k]) (cl1, ns1, byId1, sts1, c1) = Inr (cl', ns', byId', sts', cycles')"
    by (auto split: sum.splits)
    from b obtain r n sts2 names l where
      n: "lineAt lines (cl + int i0 + 1) = Some r" "num r = Some n"
      and f: "forEach (scheduleStreetQ num horizon lines (lineAt lines (cl + int i0))
                 (cl + int i0 + 2)) (map int [0..<nat n]) (sts, [], 0) = Inr (sts2, names, l)"
      and st: "cl1 = cl + n + 1" "ns1 = ns + n" "c1 = cycles + l"
      by (auto simp: scheduleIntersectionQ_def Let_def split: option.splits if_splits sum.splits)
    from scheduleStreetQ_loop[OF f]
    have g: "\<forall>j \<in> set (map int [0..<nat n]).
               \<exists>v. greenAt num lines (cl + int i0 + 2 + j) = Some v \<and> 1 \<le> v \<and> v \<le> horizon"
      and c: "c1 = cycles + total (map (\<lambda>j. greenAt num lines (cl + int i0 + 2 + j))
                                    (map int [0..<nat n]))"
      using st by simp_all
  have pos: "cl1 + int (Suc i0) = cl + int i0 + 2 + n" using st by simp
  have blocks: "declaredBlocks num lines (Suc k) (cl + int i0) =
      (n, map (\<lambda>j. greenAt num lines (cl + int i0 + 2 + j)) (map int [0..<nat n]))
      # declaredBlocks num lines k (cl1 + int (Suc i0))"
    using n unfolding pos by (simp add: toNumber_def)
  from Suc.IH[OF rest] have ih:
    "length (declaredBlocks num lines k (cl1 + int (Suc i0))) = k"
    "\<forall>g \<in> set (greenDurations (declaredBlocks num lines k (cl1 + int (Suc i0)))).
         \<exists>v. g = Some v \<and> 1 \<le> v \<and> v \<le> horizon"
    "ns' = ns1 + declaredEntries (declaredBlocks num lines k (cl1 + int (Suc i0)))"
    "cycles' = c1 + sum_list (cycleLengths (declaredBlocks num lines k (cl1 + int (Suc i0))))"
    by simp_all
  have 1: "length (declaredBlocks num lines (Suc k) (cl + int i0)) = Suc k"
    unfolding blocks using ih(1) by simp
  have 2: "\<forall>g \<in> set (greenDurations (declaredBlocks num lines (Suc k) (cl + int i0))).
         \<exists>v. g = Some v \<and> 1 \<le> v \<and> v \<le> horizon"
    unfolding blocks using ih(2) g by (auto simp: greenDurations_def)
  have 3: "ns' = ns + declaredEntries (declaredBlocks num lines (Suc k) (cl + int i0))"
    unfolding blocks using ih(3) st by (simp add: declaredEntries_def)
  have 4: "cycles' = cycles + sum_list (cycleLengths (declaredBlocks num lines (Suc k) (cl + int i0)))"
    unfolding blocks using ih(4) c by (simp add: cycleLengths_def)
  show ?case using 1 2 3 4 by blast
qed

lemma declaredEntries_length:
  "\<forall>b \<in> set (declaredBlocks num lines k pos). 0 \<le> fst b \<Longrightarrow>
   declaredEntries (declaredBlocks num lines k pos)
     = int (length (greenDurations (declaredBlocks num lines k pos)))"
proof (induction k arbitrary: pos)
  case 0
  show ?case by (simp add: declaredEntries_def greenDurations_def)
next
  case (Suc k)
  show ?case
  proof (cases "toNumber num (lineAt lines (pos + 1))")
    case None
    then show ?thesis by (simp add: declaredEntries_def greenDurations_def)
  next
    case (Some n)
    with Suc.prems have "0 \<le> n"
      "\<forall>b \<in> set (declaredBlocks num lines k (pos + 2 + n)). 0 \<le> fst b" by simp_all
    with Suc.IH[of "pos + 2 + n"] Some show ?thesis
      by (simp add: declaredEntries_def greenDurations_def)
  qed
qed

lemma sum_cycleLengths: "sum_list (cycleLengths bs) = total (greenDurations bs)"
  by (simp add: cycleLengths_def greenDurations_def total_concat comp_def)

lemma parseSubmittedDataSetQ_reports:
  assumes "parseSubmittedDataSetQ num d allLines = Inr (d', avgs)"
  shows "reports num (simulation d) allLines avgs"
proof -
  from assms obtain cl ns byId sts cycles where
    f: "forEach (scheduleIntersectionQ num (simulationDuration (simulation d)) (tl allLines))
          (map int [0..<0 + intersectionCount num allLines]) (0, 0, inheritedName, streets d, 0)
        = Inr (cl, ns, byId, sts, cycles)"
    and a: "avgs = \<lparr>greenCycles = jsDivide cycles ns,
                    totalCycles = jsDivide cycles (numIntersections (simulation d))\<rparr>"
    by (auto simp: parseSubmittedDataSetQ_def split: sum.splits)
  from scheduleIntersectionQ_loop[OF f] a declaredEntries_length[of num "tl allLines"
      "intersectionCount num allLines" 0]
  show ?thesis
    by (simp add: reports_def blocksOf_def Let_def sum_cycleLengths)
qed

lemma parseSubmittedDataSetA_reports:
  assumes "parseSubmittedDataSetA num d allLines = Inr (byId, avgs)"
  shows "reports num (simulation d) allLines avgs"
proof -
  from assms obtain cl ns cycles where
    f: "forEach (scheduleIntersectionA num (simulationDuration (simulation d)) (streets d)
          (tl allLines))
          (map int [0..<0 + intersectionCount num allLines]) (0, 0, Map.empty, 0)
        = Inr (cl, ns, byId, cycles)"
    and a: "avgs = \<lparr>greenCycles = jsDivide cycles ns,
                    totalCycles = jsDivide cycles (numIntersections (simulation d))\<rparr>"
    by (auto simp: parseSubmittedDataSetA_def split: sum.splits)
  from scheduleIntersectionA_loop[OF f] a declaredEntries_length[of num "tl allLines"
      "intersectionCount num allLines" 0]
  show ?thesis
    by (simp add: reports_def blocksOf_def Let_def sum_cycleLengths)
qed


lemma exampleDataset_simulation:
  "simulation exampleDataset =
     \<lparr>simulationDuration = 3, numIntersections = 3, numStreets = 3, numCars = 3,
      bonusPoint = 1000\<rparr>"
  by (simp add: exampleDataset_def exampleInput_def parse_defs parseQ_defs)

lemma exampleDataset_validated:
  "parseSubmittedDataSetQ decimal exampleDataset exampleSubmission =
     Inr (exampleQ, \<lparr>greenCycles = Finite 1, totalCycles = Finite (2 / 3)\<rparr>)"
  unfolding exampleQ_value
  by (simp add: exampleDataset_def exampleInput_def exampleSubmission_def parse_defs parseQ_defs
        fun_eq_iff)

lemma exampleA_validated:
  "parseSubmittedDataSetA decimal exampleA exampleSubmission =
     Inr (exampleSchedules, \<lparr>greenCycles = Finite 1, totalCycles = Finite (2 / 3)\<rparr>)"
  unfolding exampleSchedules_value exampleA_value
  by (simp add: exampleSubmission_def parse_defs parseA_defs fun_eq_iff)

lemma example_blocks:
  "blocksOf decimal exampleSubmission = [(1, [Some 1]), (1, [Some 1])]"
  by (simp add: blocksOf_def exampleSubmission_def greenAt_def parse_defs numeral_eq_Suc)

text \<open>
  Claim C8 does not hold as stated. The example submission schedules two of the three
  intersections of its dataset, each with a cycle length of 1: the sum of the cycle
  lengths divided by the number of scheduled intersections is 1, and both sources
  report 2/3.
\<close>

theorem average_cycle_length_counterexample:
  "(\<exists>avgs o1 o2. parseSubmittedDataSetA decimal exampleA exampleSubmission
                    = Inr (exampleSchedules, avgs)
        \<and> exampleSchedules ''1'' = Some o1 \<and> o1 ''scheduledTimeWindow'' = Some (CycleLength 1)
        \<and> exampleSchedules ''2'' = Some o2 \<and> o2 ''scheduledTimeWindow'' = Some (CycleLength 1)
        \<and> exampleSchedules ''0'' = None
        \<and> cycleLengths (blocksOf decimal exampleSubmission) = [1, 1]
        \<and> jsDivide (1 + 1) 2 = Finite 1
        \<and> totalCycles avgs = Finite (2 / 3)
        \<and> totalCycles avgs \<noteq> jsDivide (1 + 1) 2)
   \<and> (\<exists>avgs. parseSubmittedDataSetQ decimal exampleDataset exampleSubmission
                    = Inr (exampleQ, avgs)
        \<and> totalCycles avgs = Finite (2 / 3)
        \<and> totalCycles avgs \<noteq> jsDivide (1 + 1) 2)"
  unfolding exampleDataset_validated exampleA_validated
  by (simp add: exampleSchedules_value example_blocks cycleLengths_def jsDivide_def)

text \<open>
  Claim C8, amended. After a validation that succeeds, in either source: the file
  holds as many blocks as its first line declares, each green duration read lies
  between 1 and the duration of the simulation, the reported average cycle length is
  the sum of the cycle lengths of the scheduled intersections divided by the number
  of intersections of the dataset, and the reported average green duration is the sum
  of all green durations divided by the sum of the declared street counts, which is
  the number of scheduled street entries when no declared count is negative.
\<close>

theorem reported_averages:
  "(\<forall>d' avgs. parseSubmittedDataSetQ num dQ allLines = Inr (d', avgs) \<longrightarrow>
       reports num (simulation dQ) allLines avgs)
   \<and> (\<forall>byId avgs. parseSubmittedDataSetA num dA allLines = Inr (byId, avgs) \<longrightarrow>
       reports num (simulation dA) allLines avgs)"
  using parseSubmittedDataSetQ_reports parseSubmittedDataSetA_reports by blast

theorem reported_averages_witness:
  "(\<exists>d' avgs. parseSubmittedDataSetQ decimal exampleDataset exampleSubmission = Inr (d', avgs)
       \<and> reports decimal (simulation exampleDataset) exampleSubmission avgs
       \<and> numIntersections (simulation exampleDataset) = 3
       \<and> totalCycles avgs = jsDivide (sum_list [1, 1]) 3
       \<and> greenCycles avgs = jsDivide (total [Some 1, Some 1]) (1 + 1))
   \<and> (\<exists>byId avgs. parseSubmittedDataSetA decimal exampleA exampleSubmission = Inr (byId, avgs)
       \<and> reports decimal (simulation exampleA) exampleSubmission avgs
       \<and> numIntersections (simulation exampleA) = 3
       \<and> totalCycles avgs = jsDivide (sum_list [1, 1]) 3
       \<and> greenCycles avgs = jsDivide (total [Some 1, Some 1]) (1 + 1))"
proof -
  note inst = reported_averages[of decimal exampleDataset exampleSubmission exampleA]
  let ?a = "\<lparr>greenCycles = Finite 1, totalCycles = Finite (2 / 3)\<rparr>"
  have rQ: "reports decimal (simulation exampleDataset) exampleSubmission ?a"
    using conjunct1[OF inst] exampleDataset_validated by blast
  have rA: "reports decimal (simulation exampleA) exampleSubmission ?a"
    using conjunct2[OF inst] exampleA_validated by blast
  have vQ: "numIntersections (simulation exampleDataset) = 3
       \<and> totalCycles ?a = jsDivide (sum_list [1, 1]) 3
       \<and> greenCycles ?a = jsDivide (total [Some 1, Some 1]) (1 + 1)"
    using rQ by (simp add: reports_def Let_def example_blocks cycleLengths_def
                   greenDurations_def declaredEntries_def exampleDataset_simulation)
  have vA: "numIntersections (simulation exampleA) = 3
       \<and> totalCycles ?a = jsDivide (sum_list [1, 1]) 3
       \<and> greenCycles ?a = jsDivide (total [Some 1, Some 1]) (1 + 1)"
    using rA by (simp add: reports_def Let_def example_blocks cycleLengths_def
                   greenDurations_def declaredEntries_def exampleA_simulation)
  show ?thesis using exampleDataset_validated exampleA_validated rQ rA vQ vA by blast
qed

section \<open>Truncated submissions\<close>

lemma forEach_append:
  "forEach body (xs @ ys) s =
     (case forEach body xs s of Inl e \<Rightarrow> Inl e | Inr s' \<Rightarrow> forEach body ys s')"
  by (induction xs arbitrary: s) (auto split: sum.splits)

lemma greenAt_line: "greenAt num lines p = Some v \<Longrightarrow> 0 \<le> p \<and> p < int (length lines)"
  by (auto simp: greenAt_def lineAt_def split: option.splits if_splits)

lemma lineAt_line: "lineAt lines p = Some l \<Longrightarrow> 0 \<le> p \<and> p < int (length lines)"
  by (auto simp: lineAt_def split: if_splits)

text \<open>A block that is accepted ends within the file.\<close>

lemma scheduleIntersectionA_within:
  assumes "scheduleIntersectionA num horizon sts lines i (cl, ns, byId, cycles)
             = Inr (cl1, ns1, byId1, c1)"
  shows "\<exists>n. toNumber num (lineAt lines (cl + i + 1)) = Some n \<and> cl1 = cl + n + 1
           \<and> cl + i + 2 + n \<le> int (length lines)"
proof -
  from assms obtain r n obj l c2 where
    n: "lineAt lines (cl + i + 1) = Some r" "num r = Some n"
    and f: "forEach (scheduleStreetA num horizon sts lines (lineAt lines (cl + i))
               (cl + i + 2)) (map int [0..<nat n]) (Map.empty, 0, cycles) = Inr (obj, l, c2)"
    and st: "cl1 = cl + n + 1"
    by (auto simp: scheduleIntersectionA_def Let_def split: option.splits if_splits sum.splits)
  have "cl + i + 2 + n \<le> int (length lines)"
  proof (cases "1 \<le> n")
    case True
    then have "n - 1 \<in> set (map int [0..<nat n])"
      by (auto simp: image_iff intro!: bexI[of _ "nat (n - 1)"])
    with scheduleStreetA_loop[OF f] obtain v where
      "greenAt num lines (cl + i + 2 + (n - 1)) = Some v" by blast
    from greenAt_line[OF this] show ?thesis by simp
  next
    case False
    with lineAt_line[OF n(1)] show ?thesis by simp
  qed
  then show ?thesis using n st by (simp add: toNumber_def)
qed

lemma scheduleIntersectionQ_within:
  assumes "scheduleIntersectionQ num horizon lines i (cl, ns, byId, sts, cycles)
             = Inr (cl1, ns1, byId1, sts1, c1)"
  shows "\<exists>n. toNumber num (lineAt lines (cl + i + 1)) = Some n \<and> cl1 = cl + n + 1
           \<and> cl + i + 2 + n \<le> int (length lines)"
proof -
  from assms obtain r n sts2 names l where
    n: "lineAt lines (cl + i + 1) = Some r" "num r = Some n"
    and f: "forEach (scheduleStreetQ num horizon lines (lineAt lines (cl + i))
               (cl + i + 2)) (map int [0..<nat n]) (sts, [], 0) = Inr (sts2, names, l)"
    and st: "cl1 = cl + n + 1"
    by (auto simp: scheduleIntersectionQ_def Let_def split: option.splits if_splits sum.splits)
  have "cl + i + 2 + n \<le> int (length lines)"
  proof (cases "1 \<le> n")
    case True
    then have "n - 1 \<in> set (map int [0..<nat n])"
      by (auto simp: image_iff intro!: bexI[of _ "nat (n - 1)"])
    with scheduleStreetQ_loop[OF f] obtain v where
      "greenAt num lines (cl + i + 2 + (n - 1)) = Some v" by blast
    from greenAt_line[OF this] show ?thesis by simp
  next
    case False
    with lineAt_line[OF n(1)] show ?thesis by simp
  qed
  then show ?thesis using n st by (simp add: toNumber_def)
qed

lemma truncated_loopA:
  "cl + int i0 \<le> int (length lines) \<Longrightarrow>
   int (length lines) < requiredLines num lines k (cl + int i0) \<Longrightarrow>
   \<exists>e. forEach (scheduleIntersectionA num horizon sts lines) (map int [i0..<i0 + k])
          (cl, ns, byId, cycles) = Inl e"
proof (induction k arbitrary: i0 cl ns byId cycles)
  case 0
  then show ?case by simp
next
  case (Suc k)
  have u: "map int [i0..<i0 + Suc k] = int i0 # map int [Suc i0..<Suc i0 + k]"
    by (simp add: upt_rec)
  show ?case
  proof (cases "scheduleIntersectionA num horizon sts lines (int i0) (cl, ns, byId, cycles)")
    case (Inl e)
    then show ?thesis unfolding u by simp
  next
    case (Inr st)
    obtain cl1 ns1 byId1 c1 where st: "st = (cl1, ns1, byId1, c1)" by (cases st) auto
    from scheduleIntersectionA_within[OF Inr[unfolded st]] obtain n where
      n: "toNumber num (lineAt lines (cl + int i0 + 1)) = Some n" "cl1 = cl + n + 1"
         "cl + int i0 + 2 + n \<le> int (length lines)" by blast
    have pos: "cl1 + int (Suc i0) = cl + int i0 + 2 + n" using n(2) by simp
    have "\<exists>e. forEach (scheduleIntersectionA num horizon sts lines)
                 (map int [Suc i0..<Suc i0 + k]) (cl1, ns1, byId1, c1) = Inl e"
    proof (rule Suc.IH)
      show "cl1 + int (Suc i0) \<le> int (length lines)" unfolding pos by (rule n(3))
      show "int (length lines) < requiredLines num lines k (cl1 + int (Suc i0))"
        using Suc.prems(2) n(1) unfolding pos by simp
    qed
    then show ?thesis unfolding u using Inr st by simp
  qed
qed

lemma truncated_loopQ:
  "cl + int i0 \<le> int (length lines) \<Longrightarrow>
   int (length lines) < requiredLines num lines k (cl + int i0) \<Longrightarrow>
   \<exists>e. forEach (scheduleIntersectionQ num horizon lines) (map int [i0..<i0 + k])
          (cl, ns, byId, sts, cycles) = Inl e"
proof (induction k arbitrary: i0 cl ns byId sts cycles)
  case 0
  then show ?case by simp
next
  case (Suc k)
  have u: "map int [i0..<i0 + Suc k] = int i0 # map int [Suc i0..<Suc i0 + k]"
    by (simp add: upt_rec)
  show ?case
  proof (cases "scheduleIntersectionQ num horizon lines (int i0) (cl, ns, byId, sts, cycles)")
    case (Inl e)
    then show ?thesis unfolding u by simp
  next
    case (Inr st)
    obtain cl1 ns1 byId1 sts1 c1 where st: "st = (cl1, ns1, byId1, sts1, c1)" by (cases st) auto
    from scheduleIntersectionQ_within[OF Inr[unfolded st]] obtain n where
      n: "toNumber num (lineAt lines (cl + int i0 + 1)) = Some n" "cl1 = cl + n + 1"
         "cl + int i0 + 2 + n \<le> int (length lines)" by blast
    have pos: "cl1 + int (Suc i0) = cl + int i0 + 2 + n" using n(2) by simp
    have "\<exists>e. forEach (scheduleIntersectionQ num horizon lines)
                 (map int [Suc i0..<Suc i0 + k]) (cl1, ns1, byId1, sts1, c1) = Inl e"
    proof (rule Suc.IH)
      show "cl1 + int (Suc i0) \<le> int (length lines)" unfolding pos by (rule n(3))
      show "int (length lines) < requiredLines num lines k (cl1 + int (Suc i0))"
        using Suc.prems(2) n(1) unfolding pos by simp
    qed
    then show ?thesis unfolding u using Inr st by simp
  qed
qed

lemma truncated_rejectedQ:
  assumes "truncated num allLines"
  shows "\<exists>e. parseSubmittedDataSetQ num d allLines = Inl e"
proof -
  have "\<exists>e. forEach (scheduleIntersectionQ num (simulationDuration (simulation d)) (tl allLines))
          (map int [0..<0 + intersectionCount num allLines]) (0, 0, inheritedName, streets d, 0) = Inl e"
    using assms by (intro truncated_loopQ) (simp_all add: truncated_def)
  then show ?thesis by (auto simp: parseSubmittedDataSetQ_def)
qed

lemma truncated_rejectedA:
  assumes "truncated num allLines"
  shows "\<exists>e. parseSubmittedDataSetA num d allLines = Inl e"
proof -
  have "\<exists>e. forEach (scheduleIntersectionA num (simulationDuration (simulation d)) (streets d)
          (tl allLines))
          (map int [0..<0 + intersectionCount num allLines]) (0, 0, Map.empty, 0) = Inl e"
    using assms by (intro truncated_loopA) (simp_all add: truncated_def)
  then show ?thesis by (auto simp: parseSubmittedDataSetA_def)
qed


lemma scheduleStreetA_error:
  "forEach (scheduleStreetA num horizon sts lines intersectionId base) js (obj, l, cycles) \<noteq> Inl (TruncatedSubmission n)"
proof (induction js arbitrary: obj l cycles)
  case Nil
  show ?case by simp
next
  case (Cons j js)
  show ?case
  proof (cases "scheduleStreetA num horizon sts lines intersectionId base j (obj, l, cycles)")
    case (Inl e)
    then have "e \<noteq> TruncatedSubmission n"
      by (auto simp: scheduleStreetA_def Let_def split: option.splits if_splits)
    with Inl show ?thesis by simp
  next
    case (Inr st)
    then show ?thesis using Cons.IH by (cases st) auto
  qed
qed

lemma scheduleIntersectionA_error:
  assumes "scheduleIntersectionA num horizon sts lines i (cl, ns, byId, cycles) = Inl (TruncatedSubmission n)"
  shows "lineAt lines (cl + i + 1) = None \<and> n = cl + i + 2"
proof (cases "lineAt lines (cl + i + 1)")
  case None
  with assms show ?thesis by (simp add: scheduleIntersectionA_def Let_def)
next
  case (Some r)
  show ?thesis
  proof (cases "num r")
    case None
    with assms Some show ?thesis by (simp add: scheduleIntersectionA_def Let_def)
  next
    case (Some k)
    with assms \<open>lineAt lines (cl + i + 1) = Some r\<close> scheduleStreetA_error show ?thesis
      by (auto simp: scheduleIntersectionA_def Let_def split: if_splits sum.splits)
  qed
qed

lemma truncation_reportedA:
  "forEach (scheduleIntersectionA num horizon sts lines) (map int [i0..<i0 + k]) (cl, ns, byId, cycles) = Inl (TruncatedSubmission n) \<Longrightarrow>
   lineAt lines (n - 1) = None"
proof (induction k arbitrary: i0 cl ns byId cycles)
  case 0
  then show ?case by simp
next
  case (Suc k)
  have u: "map int [i0..<i0 + Suc k] = int i0 # map int [Suc i0..<Suc i0 + k]"
    by (simp add: upt_rec)
  show ?case
  proof (cases "scheduleIntersectionA num horizon sts lines (int i0) (cl, ns, byId, cycles)")
    case (Inl e)
    with Suc.prems[unfolded u] have "e = TruncatedSubmission n" by simp
    from scheduleIntersectionA_error[OF Inl[unfolded this]] show ?thesis
      by (simp add: algebra_simps)
  next
    case (Inr st)
    obtain cl1 ns1 byId1 c1 where st: "st = (cl1, ns1, byId1, c1)" by (cases st) auto
    from Suc.prems[unfolded u] Inr st
    have "forEach (scheduleIntersectionA num horizon sts lines) (map int [Suc i0..<Suc i0 + k]) (cl1, ns1, byId1, c1)
            = Inl (TruncatedSubmission n)" by simp
    then show ?thesis by (rule Suc.IH)
  qed
qed

lemma accepted_blocksA:
  "forEach (scheduleIntersectionA num horizon sts lines) (map int [i0..<i0 + k]) (cl, ns, byId, cycles) = Inr (cl', ns', byId', cycles') \<Longrightarrow>
   cl' + int (i0 + k) = requiredLines num lines k (cl + int i0)"
proof (induction k arbitrary: i0 cl ns byId cycles)
  case 0
  then show ?case by simp
next
  case (Suc k)
  have u: "map int [i0..<i0 + Suc k] = int i0 # map int [Suc i0..<Suc i0 + k]"
    by (simp add: upt_rec)
  from Suc.prems[unfolded u] obtain cl1 ns1 byId1 c1 where
    b: "scheduleIntersectionA num horizon sts lines (int i0) (cl, ns, byId, cycles) = Inr (cl1, ns1, byId1, c1)"
    and rest: "forEach (scheduleIntersectionA num horizon sts lines) (map int [Suc i0..<Suc i0 + k]) (cl1, ns1, byId1, c1) = Inr (cl', ns', byId', cycles')"
    by (auto split: sum.splits)
  from scheduleIntersectionA_within[OF b] obtain n where
    n: "toNumber num (lineAt lines (cl + int i0 + 1)) = Some n" "cl1 = cl + n + 1" by blast
  have pos: "cl1 + int (Suc i0) = cl + int i0 + 2 + n" using n(2) by simp
  from Suc.IH[OF rest] n(1) show ?case unfolding pos by simp
qed

lemma ends_earlyA:
  assumes ok: "forEach (scheduleIntersectionA num horizon sts lines) (map int [0..<k0]) (cl, ns, byId, cycles) = Inr (cl', ns', byId', cycles')"
    and more: "k0 < k"
    and ends: "int (length lines) \<le> requiredLines num lines k0 cl + 1"
  shows "forEach (scheduleIntersectionA num horizon sts lines) (map int [0..<k]) (cl, ns, byId, cycles)
           = Inl (TruncatedSubmission (requiredLines num lines k0 cl + 2))"
proof -
  from accepted_blocksA[of num horizon sts lines 0 k0] ok
  have at: "cl' + int k0 = requiredLines num lines k0 cl" by simp
  have "lineAt lines (cl' + int k0 + 1) = None" using ends at by (simp add: lineAt_def)
  then have b: "scheduleIntersectionA num horizon sts lines (int k0) (cl', ns', byId', cycles') = Inl (TruncatedSubmission (cl' + int k0 + 2))"
    by (simp add: scheduleIntersectionA_def Let_def)
  have "[0..<k] = [0..<k0] @ k0 # [Suc k0..<k]" using more
    by (metis less_imp_le_nat upt_add_eq_append upt_conv_Cons le_add_diff_inverse zero_le)
  then have "map int [0..<k] = map int [0..<k0] @ int k0 # map int [Suc k0..<k]" by simp
  then show ?thesis using ok b at by (simp add: forEach_append)
qed

lemma scheduleStreetQ_error:
  "forEach (scheduleStreetQ num horizon lines intersectionId base) js (sts, names, l) \<noteq> Inl (TruncatedSubmission n)"
proof (induction js arbitrary: sts names l)
  case Nil
  show ?case by simp
next
  case (Cons j js)
  show ?case
  proof (cases "scheduleStreetQ num horizon lines intersectionId base j (sts, names, l)")
    case (Inl e)
    then have "e \<noteq> TruncatedSubmission n"
      by (auto simp: scheduleStreetQ_def Let_def split: option.splits if_splits)
    with Inl show ?thesis by simp
  next
    case (Inr st)
    then show ?thesis using Cons.IH by (cases st) auto
  qed
qed

lemma setWindowQ_error:
  "forEach (setWindowQ w) names sts \<noteq> Inl (TruncatedSubmission n)"
proof (induction names arbitrary: sts)
  case Nil
  show ?case by simp
next
  case (Cons name names)
  show ?case
  proof (cases "setWindowQ w name sts")
    case (Inl e)
    then have "e \<noteq> TruncatedSubmission n"
      by (auto simp: setWindowQ_def split: option.splits)
    with Inl show ?thesis by simp
  next
    case (Inr st)
    then show ?thesis using Cons.IH by simp
  qed
qed

lemma scheduleIntersectionQ_error:
  assumes "scheduleIntersectionQ num horizon lines i (cl, ns, byId, sts, cycles) = Inl (TruncatedSubmission n)"
  shows "lineAt lines (cl + i + 1) = None \<and> n = cl + i + 2"
proof (cases "lineAt lines (cl + i + 1)")
  case None
  with assms show ?thesis by (simp add: scheduleIntersectionQ_def Let_def)
next
  case (Some r)
  show ?thesis
  proof (cases "num r")
    case None
    with assms Some show ?thesis by (simp add: scheduleIntersectionQ_def Let_def)
  next
    case (Some k)
    with assms \<open>lineAt lines (cl + i + 1) = Some r\<close> scheduleStreetQ_error setWindowQ_error
    show ?thesis
      by (auto simp: scheduleIntersectionQ_def Let_def split: if_splits sum.splits)
  qed
qed

lemma truncation_reportedQ:
  "forEach (scheduleIntersectionQ num horizon lines) (map int [i0..<i0 + k]) (cl, ns, byId, sts, cycles) = Inl (TruncatedSubmission n) \<Longrightarrow>
   lineAt lines (n - 1) = None"
proof (induction k arbitrary: i0 cl ns byId sts cycles)
  case 0
  then show ?case by simp
next
  case (Suc k)
  have u: "map int [i0..<i0 + Suc k] = int i0 # map int [Suc i0..<Suc i0 + k]"
    by (simp add: upt_rec)
  show ?case
  proof (cases "scheduleIntersectionQ num horizon lines (int i0) (cl, ns, byId, sts, cycles)")
    case (Inl e)
    with Suc.prems[unfolded u] have "e = TruncatedSubmission n" by simp
    from scheduleIntersectionQ_error[OF Inl[unfolded this]] show ?thesis
      by (simp add: algebra_simps)
  next
    case (Inr st)
    obtain cl1 ns1 byId1 sts1 c1 where st: "st = (cl1, ns1, byId1, sts1, c1)" by (cases st) auto
    from Suc.prems[unfolded u] Inr st
    have "forEach (scheduleIntersectionQ num horizon lines) (map int [Suc i0..<Suc i0 + k]) (cl1, ns1, byId1, sts1, c1)
            = Inl (TruncatedSubmission n)" by simp
    then show ?thesis by (rule Suc.IH)
  qed
qed

lemma accepted_blocksQ:
  "forEach (scheduleIntersectionQ num horizon lines) (map int [i0..<i0 + k]) (cl, ns, byId, sts, cycles) = Inr (cl', ns', byId', sts', cycles') \<Longrightarrow>
   cl' + int (i0 + k) = requiredLines num lines k (cl + int i0)"
proof (induction k arbitrary: i0 cl ns byId sts cycles)
  case 0
  then show ?case by simp
next
  case (Suc k)
  have u: "map int [i0..<i0 + Suc k] = int i0 # map int [Suc i0..<Suc i0 + k]"
    by (simp add: upt_rec)
  from Suc.prems[unfolded u] obtain cl1 ns1 byId1 sts1 c1 where
    b: "scheduleIntersectionQ num horizon lines (int i0) (cl, ns, byId, sts, cycles) = Inr (cl1, ns1, byId1, sts1, c1)"
    and rest: "forEach (scheduleIntersectionQ num horizon lines) (map int [Suc i0..<Suc i0 + k]) (cl1, ns1, byId1, sts1, c1) = Inr (cl', ns', byId', sts', cycles')"
    by (auto split: sum.splits)
  from scheduleIntersectionQ_within[OF b] obtain n where
    n: "toNumber num (lineAt lines (cl + int i0 + 1)) = Some n" "cl1 = cl + n + 1" by blast
  have pos: "cl1 + int (Suc i0) = cl + int i0 + 2 + n" using n(2) by simp
  from Suc.IH[OF rest] n(1) show ?case unfolding pos by simp
qed

lemma ends_earlyQ:
  assumes ok: "forEach (scheduleIntersectionQ num horizon lines) (map int [0..<k0]) (cl, ns, byId, sts, cycles) = Inr (cl', ns', byId', sts', cycles')"
    and more: "k0 < k"
    and ends: "int (length lines) \<le> requiredLines num lines k0 cl + 1"
  shows "forEach (scheduleIntersectionQ num horizon lines) (map int [0..<k]) (cl, ns, byId, sts, cycles)
           = Inl (TruncatedSubmission (requiredLines num lines k0 cl + 2))"
proof -
  from accepted_blocksQ[of num horizon lines 0 k0] ok
  have at: "cl' + int k0 = requiredLines num lines k0 cl" by simp
  have "lineAt lines (cl' + int k0 + 1) = None" using ends at by (simp add: lineAt_def)
  then have b: "scheduleIntersectionQ num horizon lines (int k0) (cl', ns', byId', sts', cycles') = Inl (TruncatedSubmission (cl' + int k0 + 2))"
    by (simp add: scheduleIntersectionQ_def Let_def)
  have "[0..<k] = [0..<k0] @ k0 # [Suc k0..<k]" using more
    by (metis less_imp_le_nat upt_add_eq_append upt_conv_Cons le_add_diff_inverse zero_le)
  then have "map int [0..<k] = map int [0..<k0] @ int k0 # map int [Suc k0..<k]" by simp
  then show ?thesis using ok b at by (simp add: forEach_append)
qed


lemma truncated_evaluateQ:
  assumes "truncated num (splitOn (CHR 0x0A) submittedDataSet)"
  shows "\<exists>e. evaluateQ num inputDataSet submittedDataSet = Some (Inl e)"
proof (cases "parseInputDataSetQ num (splitOn (CHR 0x0A) inputDataSet)")
  case (Inl e)
  then show ?thesis by (simp add: evaluateQ_def)
next
  case (Inr d)
  from truncated_rejectedQ[OF assms, of d] obtain e where
    "parseSubmittedDataSetQ num d (splitOn (CHR 0x0A) submittedDataSet) = Inl e" by blast
  with Inr show ?thesis by (simp add: evaluateQ_def)
qed

lemma truncated_evaluateA:
  assumes "truncated num (splitOn (CHR 0x0A) submittedDataSet)"
  shows "\<exists>e. evaluateA num inputDataSet submittedDataSet = Some (Inl e)"
proof (cases "parseInputDataSetA num (splitOn (CHR 0x0A) inputDataSet)")
  case (Inl e)
  then show ?thesis by (simp add: evaluateA_def)
next
  case (Inr d)
  from truncated_rejectedA[OF assms, of d] obtain e where
    "parseSubmittedDataSetA num d (splitOn (CHR 0x0A) submittedDataSet) = Inl e" by blast
  with Inr show ?thesis by (simp add: evaluateA_def)
qed

lemma truncation_reported_parseQ:
  assumes "parseSubmittedDataSetQ num d allLines = Inl (TruncatedSubmission n)"
  shows "lineAt (tl allLines) (n - 1) = None"
proof -
  from assms have "forEach (scheduleIntersectionQ num (simulationDuration (simulation d)) (tl allLines))
          (map int [0..<0 + intersectionCount num allLines]) (0, 0, inheritedName, streets d, 0)
        = Inl (TruncatedSubmission n)"
    by (auto simp: parseSubmittedDataSetQ_def split: sum.splits)
  then show ?thesis by (rule truncation_reportedQ)
qed

lemma truncation_reported_parseA:
  assumes "parseSubmittedDataSetA num d allLines = Inl (TruncatedSubmission n)"
  shows "lineAt (tl allLines) (n - 1) = None"
proof -
  from assms have "forEach (scheduleIntersectionA num (simulationDuration (simulation d)) (streets d)
          (tl allLines))
          (map int [0..<0 + intersectionCount num allLines]) (0, 0, Map.empty, 0)
        = Inl (TruncatedSubmission n)"
    by (auto simp: parseSubmittedDataSetA_def split: sum.splits)
  then show ?thesis by (rule truncation_reportedA)
qed

lemma ends_early_parseQ:
  assumes "parseSubmittedDataSetQ num d (first0 # lines) = Inr (d', avgs)"
    "intersectionCount num (first0 # lines) < intersectionCount num (first # lines)"
    "int (length lines) \<le> requiredLines num lines (intersectionCount num (first0 # lines)) 0 + 1"
  shows "parseSubmittedDataSetQ num d (first # lines) =
           Inl (TruncatedSubmission
                  (requiredLines num lines (intersectionCount num (first0 # lines)) 0 + 2))"
proof -
  from assms(1) obtain cl ns byId sts cycles where
    f: "forEach (scheduleIntersectionQ num (simulationDuration (simulation d)) lines)
          (map int [0..<intersectionCount num (first0 # lines)]) (0, 0, inheritedName, streets d, 0)
        = Inr (cl, ns, byId, sts, cycles)"
    by (auto simp: parseSubmittedDataSetQ_def split: sum.splits)
  from ends_earlyQ[OF f assms(2,3)] show ?thesis by (simp add: parseSubmittedDataSetQ_def)
qed

lemma ends_early_parseA:
  assumes "parseSubmittedDataSetA num d (first0 # lines) = Inr (byId, avgs)"
    "intersectionCount num (first0 # lines) < intersectionCount num (first # lines)"
    "int (length lines) \<le> requiredLines num lines (intersectionCount num (first0 # lines)) 0 + 1"
  shows "parseSubmittedDataSetA num d (first # lines) =
           Inl (TruncatedSubmission
                  (requiredLines num lines (intersectionCount num (first0 # lines)) 0 + 2))"
proof -
  from assms(1) obtain cl ns cycles where
    f: "forEach (scheduleIntersectionA num (simulationDuration (simulation d)) (streets d) lines)
          (map int [0..<intersectionCount num (first0 # lines)]) (0, 0, Map.empty, 0)
        = Inr (cl, ns, byId, cycles)"
    by (auto simp: parseSubmittedDataSetA_def split: sum.splits)
  from ends_earlyA[OF f assms(2,3)] show ?thesis by (simp add: parseSubmittedDataSetA_def)
qed

lemma shortSubmission_truncated: "truncated decimal shortSubmission"
  by (simp add: truncated_def shortSubmission_def parse_defs)

lemma halfSubmission_truncated: "truncated decimal halfSubmission"
  by (simp add: truncated_def halfSubmission_def parse_defs numeral_eq_Suc)

text \<open>
  What the validators do of a submission that ends early. A submission with fewer
  lines after its first than its declared counts need is rejected by the validation
  of either source, and the whole run returns an error without a report. The error is
  that of a truncated submission when the file ends after blocks that are accepted,
  with at most one more line, and declares more blocks than these: it then names the
  line after the missing count. Whenever the error of a truncated submission is
  returned, the line before the one it names is missing.
\<close>

theorem truncated_submission_is_rejected:
  "(truncated num allLines \<longrightarrow>
       (\<exists>e. parseSubmittedDataSetQ num dQ allLines = Inl e)
       \<and> (\<exists>e. parseSubmittedDataSetA num dA allLines = Inl e))
   \<and> (truncated num (splitOn (CHR 0x0A) submittedDataSet) \<longrightarrow>
       (\<exists>e. evaluateQ num inputDataSet submittedDataSet = Some (Inl e))
       \<and> (\<exists>e. evaluateA num inputDataSet submittedDataSet = Some (Inl e)))
   \<and> (\<forall>first0 first lines d' avgs.
         parseSubmittedDataSetQ num dQ (first0 # lines) = Inr (d', avgs)
         \<and> intersectionCount num (first0 # lines) < intersectionCount num (first # lines)
         \<and> int (length lines)
             \<le> requiredLines num lines (intersectionCount num (first0 # lines)) 0 + 1 \<longrightarrow>
         parseSubmittedDataSetQ num dQ (first # lines) =
           Inl (TruncatedSubmission
                  (requiredLines num lines (intersectionCount num (first0 # lines)) 0 + 2)))
   \<and> (\<forall>first0 first lines byId avgs.
         parseSubmittedDataSetA num dA (first0 # lines) = Inr (byId, avgs)
         \<and> intersectionCount num (first0 # lines) < intersectionCount num (first # lines)
         \<and> int (length lines)
             \<le> requiredLines num lines (intersectionCount num (first0 # lines)) 0 + 1 \<longrightarrow>
         parseSubmittedDataSetA num dA (first # lines) =
           Inl (TruncatedSubmission
                  (requiredLines num lines (intersectionCount num (first0 # lines)) 0 + 2)))
   \<and> (\<forall>n. parseSubmittedDataSetQ num dQ allLines = Inl (TruncatedSubmission n) \<longrightarrow>
         lineAt (tl allLines) (n - 1) = None)
   \<and> (\<forall>n. parseSubmittedDataSetA num dA allLines = Inl (TruncatedSubmission n) \<longrightarrow>
         lineAt (tl allLines) (n - 1) = None)"
proof (intro conjI allI impI)
  assume "truncated num allLines"
  then show "\<exists>e. parseSubmittedDataSetQ num dQ allLines = Inl e"
    and "\<exists>e. parseSubmittedDataSetA num dA allLines = Inl e"
    by (rule truncated_rejectedQ, rule truncated_rejectedA)
next
  assume "truncated num (splitOn (CHR 0x0A) submittedDataSet)"
  then show "\<exists>e. evaluateQ num inputDataSet submittedDataSet = Some (Inl e)"
    and "\<exists>e. evaluateA num inputDataSet submittedDataSet = Some (Inl e)"
    by (rule truncated_evaluateQ, rule truncated_evaluateA)
next
  fix first0 first lines d' avgs
  assume "parseSubmittedDataSetQ num dQ (first0 # lines) = Inr (d', avgs)
         \<and> intersectionCount num (first0 # lines) < intersectionCount num (first # lines)
         \<and> int (length lines)
             \<le> requiredLines num lines (intersectionCount num (first0 # lines)) 0 + 1"
  then show "parseSubmittedDataSetQ num dQ (first # lines) =
           Inl (TruncatedSubmission
                  (requiredLines num lines (intersectionCount num (first0 # lines)) 0 + 2))"
    using ends_early_parseQ by blast
next
  fix first0 first lines byId avgs
  assume "parseSubmittedDataSetA num dA (first0 # lines) = Inr (byId, avgs)
         \<and> intersectionCount num (first0 # lines) < intersectionCount num (first # lines)
         \<and> int (length lines)
             \<le> requiredLines num lines (intersectionCount num (first0 # lines)) 0 + 1"
  then show "parseSubmittedDataSetA num dA (first # lines) =
           Inl (TruncatedSubmission
                  (requiredLines num lines (intersectionCount num (first0 # lines)) 0 + 2))"
    using ends_early_parseA by blast
next
  fix n
  assume "parseSubmittedDataSetQ num dQ allLines = Inl (TruncatedSubmission n)"
  then show "lineAt (tl allLines) (n - 1) = None" by (rule truncation_reported_parseQ)
next
  fix n
  assume "parseSubmittedDataSetA num dA allLines = Inl (TruncatedSubmission n)"
  then show "lineAt (tl allLines) (n - 1) = None" by (rule truncation_reported_parseA)
qed


theorem truncated_submission_is_rejected_witness:
  "truncated decimal halfSubmission
   \<and> splitOn (CHR 0x0A) (unlines halfSubmission) = halfSubmission
   \<and> (\<exists>e. evaluateQ decimal (unlines exampleInput) (unlines halfSubmission) = Some (Inl e))
   \<and> (\<exists>e. evaluateA decimal (unlines exampleInput) (unlines halfSubmission) = Some (Inl e))
   \<and> (\<exists>d' avgs. parseSubmittedDataSetQ decimal exampleDataset (''1'' # tl halfSubmission)
                    = Inr (d', avgs))
   \<and> (\<exists>byId avgs. parseSubmittedDataSetA decimal exampleA (''1'' # tl halfSubmission)
                    = Inr (byId, avgs))
   \<and> intersectionCount decimal (''1'' # tl halfSubmission) = 1
   \<and> intersectionCount decimal halfSubmission = 2
   \<and> requiredLines decimal (tl halfSubmission) 1 0 = 3
   \<and> length (tl halfSubmission) = 3
   \<and> parseSubmittedDataSetQ decimal exampleDataset halfSubmission = Inl (TruncatedSubmission (3 + 2))
   \<and> parseSubmittedDataSetA decimal exampleA halfSubmission = Inl (TruncatedSubmission (3 + 2))
   \<and> lineAt (tl halfSubmission) (3 + 2 - 1) = None"
proof -
  note inst = truncated_submission_is_rejected[where num = decimal and allLines = halfSubmission
      and dQ = exampleDataset and dA = exampleA and submittedDataSet = "unlines halfSubmission"
      and inputDataSet = "unlines exampleInput"]
  note c2 = conjunct1[OF conjunct2[OF inst]]
  note c3 = conjunct1[OF conjunct2[OF conjunct2[OF inst]]]
  note c4 = conjunct1[OF conjunct2[OF conjunct2[OF conjunct2[OF inst]]]]
  note c5 = conjunct1[OF conjunct2[OF conjunct2[OF conjunct2[OF conjunct2[OF inst]]]]]
  have t: "truncated decimal halfSubmission" by (rule halfSubmission_truncated)
  have sp: "splitOn (CHR 0x0A) (unlines halfSubmission) = halfSubmission"
    by (simp add: halfSubmission_def)
  have r2: "(\<exists>e. evaluateQ decimal (unlines exampleInput) (unlines halfSubmission) = Some (Inl e))
      \<and> (\<exists>e. evaluateA decimal (unlines exampleInput) (unlines halfSubmission) = Some (Inl e))"
    using c2 t unfolding sp by blast
  have h: "halfSubmission = ''2'' # tl halfSubmission" by (simp add: halfSubmission_def)
  have okQ: "\<exists>d' avgs. parseSubmittedDataSetQ decimal exampleDataset (''1'' # tl halfSubmission)
                    = Inr (d', avgs)"
    by (simp add: exampleDataset_def exampleInput_def halfSubmission_def parse_defs parseQ_defs)
  have okA: "\<exists>byId avgs. parseSubmittedDataSetA decimal exampleA (''1'' # tl halfSubmission)
                    = Inr (byId, avgs)"
    unfolding exampleA_value by (simp add: halfSubmission_def parse_defs parseA_defs)
  have counts: "intersectionCount decimal (''1'' # tl halfSubmission) = 1"
    "intersectionCount decimal (''2'' # tl halfSubmission) = 2"
    "requiredLines decimal (tl halfSubmission) 1 0 = 3" "length (tl halfSubmission) = 3"
    by (simp_all add: halfSubmission_def parse_defs)
  from okQ obtain d' avgs where
    q: "parseSubmittedDataSetQ decimal exampleDataset (''1'' # tl halfSubmission) = Inr (d', avgs)"
    by blast
  from okA obtain byId avgsA where
    a: "parseSubmittedDataSetA decimal exampleA (''1'' # tl halfSubmission) = Inr (byId, avgsA)"
    by blast
  have r3: "parseSubmittedDataSetQ decimal exampleDataset (''2'' # tl halfSubmission)
              = Inl (TruncatedSubmission (3 + 2))"
    using c3[rule_format, of "''1''" "tl halfSubmission" d' avgs "''2''"] q counts by simp
  have r4: "parseSubmittedDataSetA decimal exampleA (''2'' # tl halfSubmission)
              = Inl (TruncatedSubmission (3 + 2))"
    using c4[rule_format, of "''1''" "tl halfSubmission" byId avgsA "''2''"] a counts by simp
  have r5: "lineAt (tl halfSubmission) (3 + 2 - 1) = None"
    using c5[rule_format, of "3 + 2"] r3 h by simp
  show ?thesis using t sp r2 okQ okA counts r3 r4 r5 h by simp
qed

lemma exampleDataset_parsed: "parseInputDataSetQ decimal exampleInput = Inr exampleDataset"
  unfolding exampleDataset_def by (simp add: exampleInput_def parse_defs parseQ_defs)

lemma exampleA_parsed: "parseInputDataSetA decimal exampleInput = Inr exampleA"
  unfolding exampleA_def by (simp add: exampleInput_def parse_defs parseA_defs)

lemma exampleInput_lines: "splitOn (CHR 0x0A) (unlines exampleInput) = exampleInput"
  by (simp add: exampleInput_def)

text \<open>
  Claim C9: a submission with fewer lines than its declared counts need is rejected
  with the error of a truncated submission, and the simulation is not run. The
  sources do not do this when the missing line is that of a street, by a slip: the
  validators test for the end of the file where they read the count of a block, and
  not where they read the lines of its streets. A submission that declares one
  intersection with two streets and names only one of them has fewer lines than it
  declares. Both sources stop on it, before the simulation, with the \<^verbatim>\<open>TypeError\<close>
  of reading the missing line, and not with the error of a truncated submission.
\<close>

theorem missing_street_line_is_a_type_error:
  "truncated decimal shortSubmission
   \<and> parseSubmittedDataSetQ decimal exampleDataset shortSubmission = Inl TypeError
   \<and> parseSubmittedDataSetA decimal exampleA shortSubmission = Inl TypeError
   \<and> evaluateQ decimal (unlines exampleInput) (unlines shortSubmission) = Some (Inl TypeError)
   \<and> evaluateA decimal (unlines exampleInput) (unlines shortSubmission) = Some (Inl TypeError)
   \<and> (\<forall>n. parseSubmittedDataSetQ decimal exampleDataset shortSubmission
            \<noteq> Inl (TruncatedSubmission n))
   \<and> (\<forall>n. parseSubmittedDataSetA decimal exampleA shortSubmission
            \<noteq> Inl (TruncatedSubmission n))"
proof -
  have q: "parseSubmittedDataSetQ decimal exampleDataset shortSubmission = Inl TypeError"
    by (simp add: exampleDataset_def exampleInput_def shortSubmission_def parse_defs parseQ_defs)
  have a: "parseSubmittedDataSetA decimal exampleA shortSubmission = Inl TypeError"
    unfolding exampleA_value by (simp add: shortSubmission_def parse_defs parseA_defs)
  have sp: "splitOn (CHR 0x0A) (unlines shortSubmission) = shortSubmission"
    by (simp add: shortSubmission_def)
  have eq: "evaluateQ decimal (unlines exampleInput) (unlines shortSubmission)
              = Some (Inl TypeError)"
    by (simp add: evaluateQ_def exampleInput_lines sp exampleDataset_parsed q)
  have ea: "evaluateA decimal (unlines exampleInput) (unlines shortSubmission)
              = Some (Inl TypeError)"
    by (simp add: evaluateA_def exampleInput_lines sp exampleA_parsed a)
  show ?thesis using shortSubmission_truncated q a eq ea by simp
qed

section \<open>Inherited names at work\<close>

lemmas evaluate_defs = evaluateQ_def evaluateA_def simulateQ_def simulateA_def
  whileRemaining.simps createInsights_def inheritedName_def inheritedNames_def parse_defs

text \<open>With its light green, the car crosses the street of the plain name and arrives.
  Under the inherited name the fresh marker of every tick is found set for the street,
  the car never crosses, and no car arrives. The two sources agree on this.\<close>

lemma inherited_name_is_never_crossed:
  "(\<exists>r. evaluateQ decimal (unlines plainInput) (unlines plainSubmission) = Some (Inr r)
        \<and> numArrivedCars r = 1)
   \<and> (\<exists>r. evaluateA decimal (unlines plainInput) (unlines plainSubmission) = Some (Inr r)
        \<and> numArrivedCars r = 1)
   \<and> (\<exists>r. evaluateQ decimal (unlines namedInput) (unlines listedSubmission) = Some (Inr r)
        \<and> numArrivedCars r = 0)
   \<and> (\<exists>r. evaluateA decimal (unlines namedInput) (unlines listedSubmission) = Some (Inr r)
        \<and> numArrivedCars r = 0)"
proof (intro conjI)
  show "\<exists>r. evaluateQ decimal (unlines plainInput) (unlines plainSubmission) = Some (Inr r)
        \<and> numArrivedCars r = 1"
    by (simp add: evaluate_defs plainInput_def plainSubmission_def parseQ_defs stepQ_defs)
  show "\<exists>r. evaluateA decimal (unlines plainInput) (unlines plainSubmission) = Some (Inr r)
        \<and> numArrivedCars r = 1"
    by (simp add: evaluate_defs plainInput_def plainSubmission_def parseA_defs stepA_defs)
  show "\<exists>r. evaluateQ decimal (unlines namedInput) (unlines listedSubmission) = Some (Inr r)
        \<and> numArrivedCars r = 0"
    by (simp add: evaluate_defs namedInput_def listedSubmission_def parseQ_defs stepQ_defs)
  show "\<exists>r. evaluateA decimal (unlines namedInput) (unlines listedSubmission) = Some (Inr r)
        \<and> numArrivedCars r = 0"
    by (simp add: evaluate_defs namedInput_def listedSubmission_def parseA_defs stepA_defs)
qed

text \<open>With the light of street \<open>c\<close> scheduled instead, index.js looks for the window
  of the first street in the object of intersection 1, finds the inherited function
  and stops with a \<^verbatim>\<open>TypeError\<close> when it takes it apart; part_001 reads the schedule
  from the street, finds none, and prints a report.\<close>

lemma inherited_name_breaks_the_lookup:
  "(\<exists>r. evaluateQ decimal (unlines namedInput) (unlines unlistedSubmission) = Some (Inr r)
        \<and> numArrivedCars r = 0)
   \<and> evaluateA decimal (unlines namedInput) (unlines unlistedSubmission) = Some (Inl TypeError)"
proof (intro conjI)
  show "\<exists>r. evaluateQ decimal (unlines namedInput) (unlines unlistedSubmission) = Some (Inr r)
        \<and> numArrivedCars r = 0"
    by (simp add: evaluate_defs namedInput_def unlistedSubmission_def parseQ_defs stepQ_defs)
  show "evaluateA decimal (unlines namedInput) (unlines unlistedSubmission) = Some (Inl TypeError)"
    by (simp add: evaluate_defs namedInput_def unlistedSubmission_def parseA_defs stepA_defs)
qed

text \<open>In a submission, an intersection named like an inherited property is taken for
  one that already has a schedule, and a street of such a name that the dataset does
  not know is taken for one that enters another intersection. A street of a plain
  name that the dataset does not know passes that test: part_001 then fails to write
  its schedule, and index.js accepts it.\<close>

lemma inherited_names_in_a_submission:
  "parseSubmittedDataSetQ decimal exampleDataset [''1'', ''constructor'', ''0'']
     = Inl (DuplicateIntersectionSchedule ''constructor'')
   \<and> parseSubmittedDataSetA decimal exampleA [''1'', ''constructor'', ''0'']
     = Inl (DuplicateIntersectionSchedule ''constructor'')
   \<and> parseSubmittedDataSetQ decimal exampleDataset [''1'', ''1'', ''1'', ''toString 1'']
     = Inl (StreetIntersectionMismatch ''1'' ''toString'')
   \<and> parseSubmittedDataSetA decimal exampleA [''1'', ''1'', ''1'', ''toString 1'']
     = Inl (StreetIntersectionMismatch ''1'' ''toString'')
   \<and> parseSubmittedDataSetQ decimal exampleDataset [''1'', ''1'', ''1'', ''z 1'']
     = Inl TypeError
   \<and> (\<exists>byId avgs. parseSubmittedDataSetA decimal exampleA [''1'', ''1'', ''1'', ''z 1'']
     = Inr (byId, avgs))"
proof (intro conjI)
  show "parseSubmittedDataSetQ decimal exampleDataset [''1'', ''constructor'', ''0'']
     = Inl (DuplicateIntersectionSchedule ''constructor'')"
    by (simp add: exampleDataset_def exampleInput_def parse_defs parseQ_defs)
  show "parseSubmittedDataSetA decimal exampleA [''1'', ''constructor'', ''0'']
     = Inl (DuplicateIntersectionSchedule ''constructor'')"
    unfolding exampleA_value by (simp add: parse_defs parseA_defs)
  show "parseSubmittedDataSetQ decimal exampleDataset [''1'', ''1'', ''1'', ''toString 1'']
     = Inl (StreetIntersectionMismatch ''1'' ''toString'')"
    by (simp add: exampleDataset_def exampleInput_def parse_defs parseQ_defs)
  show "parseSubmittedDataSetA decimal exampleA [''1'', ''1'', ''1'', ''toString 1'']
     = Inl (StreetIntersectionMismatch ''1'' ''toString'')"
    unfolding exampleA_value by (simp add: parse_defs parseA_defs)
  show "parseSubmittedDataSetQ decimal exampleDataset [''1'', ''1'', ''1'', ''z 1'']
     = Inl TypeError"
    by (simp add: exampleDataset_def exampleInput_def parse_defs parseQ_defs)
  show "\<exists>byId avgs. parseSubmittedDataSetA decimal exampleA [''1'', ''1'', ''1'', ''z 1'']
     = Inr (byId, avgs)"
    unfolding exampleA_value by (simp add: parse_defs parseA_defs)
qed

section \<open>The two sources on a padded intersection\<close>

lemma exampleDataset_wellFormed: "wellFormed exampleDataset"
  by (auto simp: wellFormed_def exampleDataset_def exampleInput_def parse_defs parseQ_defs ran_def
           split: if_splits)

lemma paddedSchedules_value:
  "paddedSchedules =
     [''01'' \<mapsto> [''a'' \<mapsto> Window 0 0, ''scheduledTimeWindow'' \<mapsto> CycleLength 1],
      ''2'' \<mapsto> [''b'' \<mapsto> Window 0 0, ''scheduledTimeWindow'' \<mapsto> CycleLength 1]]"
  by (simp add: paddedSchedules_def exampleA_value paddedSubmission_def parse_defs parseA_defs
        fun_eq_iff)

lemma padded_validatedQ:
  "parseSubmittedDataSetQ decimal exampleDataset paddedSubmission =
     Inr (exampleQ, \<lparr>greenCycles = Finite 1, totalCycles = Finite (2 / 3)\<rparr>)"
  unfolding exampleQ_value
  by (simp add: exampleDataset_def exampleInput_def paddedSubmission_def parse_defs parseQ_defs
        fun_eq_iff)

lemma padded_validatedA:
  "parseSubmittedDataSetA decimal exampleA paddedSubmission =
     Inr (paddedSchedules, \<lparr>greenCycles = Finite 1, totalCycles = Finite (2 / 3)\<rparr>)"
  unfolding paddedSchedules_value exampleA_value
  by (simp add: paddedSubmission_def parse_defs parseA_defs fun_eq_iff)


lemma example_runQ:
  "\<exists>d'. simulateQ exampleQ = Some (Inr d') \<and> arrived (cars d' ! 0)
         \<and> length (filter arrived (cars d')) = 2"
proof -
  have "\<exists>d'. runQ ascendingQ 4 3 0 exampleQ = Inr d' \<and> arrived (cars d' ! 0)
          \<and> length (filter arrived (cars d')) = 2"
    by (simp add: runQ_defs exampleQ_value nthName_def Let_def upt_rec)
  then show ?thesis using simulateQ_run[of exampleQ] by (auto simp: exampleQ_simulation)
qed

lemma padded_runA:
  "\<exists>d'. simulateA paddedSchedules exampleA = Some (Inr d') \<and> \<not> arrived (cars d' ! 0)
         \<and> length (filter arrived (cars d')) = 0"
proof -
  have "\<exists>d'. runA paddedSchedules ascendingA 4 3 0 exampleA = Inr d' \<and> \<not> arrived (cars d' ! 0)
          \<and> length (filter arrived (cars d')) = 0"
    by (simp add: runA_defs exampleA_value paddedSchedules_value nthName_def Let_def upt_rec)
  then show ?thesis using simulateA_run[of exampleA paddedSchedules]
    by (auto simp: exampleA_simulation)
qed

lemma paddedSubmission_lines:
  "splitOn (CHR 0x0A) (unlines paddedSubmission) = paddedSubmission"
  by (simp add: paddedSubmission_def)

text \<open>
  Claim C7: on a well-formed dataset and a submission that the validation accepts,
  the source with the arrays of waiting cars (index.js) and the source with the
  queuing counters (part_001) end with the same cars and the same report. They do
  not, by a slip of index.js: its validation compares the intersection a submission
  names with the end of a street as numbers, but it files the schedule under the
  text the submission wrote and its simulation looks it up under the decimal text of
  the end of the street. The example dataset is
  well formed (\<open>exampleDataset_wellFormed\<close>) and both sources accept the submission
  that writes intersection 1 as \<^verbatim>\<open>01\<close>, with the same averages. part_001 keeps
  the schedule on the street, and two cars arrive; index.js files it under the key
  \<^verbatim>\<open>01\<close> and looks it up under the key \<^verbatim>\<open>1\<close>, the light of street \<open>a\<close> is never
  green, and no car arrives. The two runs give different reports.
\<close>

theorem padded_intersection_divergence:
  "parseInputDataSetQ decimal exampleInput = Inr exampleDataset
   \<and> parseInputDataSetA decimal exampleInput = Inr exampleA
   \<and> evaluateQ decimal (unlines exampleInput) (unlines paddedSubmission)
       \<noteq> evaluateA decimal (unlines exampleInput) (unlines paddedSubmission)
   \<and> (\<exists>avgs dA' dQ'.
         parseSubmittedDataSetQ decimal exampleDataset paddedSubmission = Inr (exampleQ, avgs)
         \<and> parseSubmittedDataSetA decimal exampleA paddedSubmission = Inr (paddedSchedules, avgs)
         \<and> simulateQ exampleQ = Some (Inr dQ')
         \<and> simulateA paddedSchedules exampleA = Some (Inr dA')
         \<and> arrived (cars dQ' ! 0) \<and> \<not> arrived (cars dA' ! 0)
         \<and> numArrivedCars (createInsights dQ' avgs) = 2
         \<and> numArrivedCars (createInsights dA' avgs) = 0)"
proof -
  from example_runQ obtain dQ' where q: "simulateQ exampleQ = Some (Inr dQ')"
    "arrived (cars dQ' ! 0)" "length (filter arrived (cars dQ')) = 2" by blast
  from padded_runA obtain dA' where a: "simulateA paddedSchedules exampleA = Some (Inr dA')"
    "\<not> arrived (cars dA' ! 0)" "length (filter arrived (cars dA')) = 0" by blast
  have "numArrivedCars (createInsights dQ' avgs) = 2"
    "numArrivedCars (createInsights dA' avgs) = 0" for avgs
    using q(3) a(3) by (simp_all add: createInsights_def Let_def)
  note n = this
  have "evaluateQ decimal (unlines exampleInput) (unlines paddedSubmission)
          = Some (Inr (createInsights dQ' \<lparr>greenCycles = Finite 1, totalCycles = Finite (2 / 3)\<rparr>))"
    by (simp add: evaluateQ_def exampleInput_lines paddedSubmission_lines exampleDataset_parsed
          padded_validatedQ q(1))
  moreover have "evaluateA decimal (unlines exampleInput) (unlines paddedSubmission)
          = Some (Inr (createInsights dA' \<lparr>greenCycles = Finite 1, totalCycles = Finite (2 / 3)\<rparr>))"
    by (simp add: evaluateA_def exampleInput_lines paddedSubmission_lines exampleA_parsed
          padded_validatedA a(1))
  ultimately have ne: "evaluateQ decimal (unlines exampleInput) (unlines paddedSubmission)
       \<noteq> evaluateA decimal (unlines exampleInput) (unlines paddedSubmission)"
    using n[of "\<lparr>greenCycles = Finite 1, totalCycles = Finite (2 / 3)\<rparr>"] by auto
  from n q a padded_validatedQ padded_validatedA exampleDataset_parsed exampleA_parsed ne
  show ?thesis by blast
qed

end
